theory Spec2Isabelle
  imports Main
begin

section \<open>Strings and numbers of the host language\<close>

text \<open>
  A JavaScript string is modelled as a HOL \<open>string\<close>: a list of code units, each in the
  range U+0000 to U+00FF. Numbers are modelled as unbounded integers (exact for every
  integer below \<open>2^53\<close> in magnitude); \<open>NaN\<close> is the value \<open>None\<close> of an
  \<open>int option\<close>.
\<close>

definition hexdigits :: string where
  "hexdigits = ''0123456789abcdef''"

definition digit_char :: "nat \<Rightarrow> char" where
  "digit_char n = hexdigits ! n"

text \<open>\<open>Number.prototype.toString\<close> on an integer: its decimal digits.\<close>

function show_nat :: "nat \<Rightarrow> string" where
  "show_nat n = (if n < 10 then [digit_char n] else show_nat (n div 10) @ [digit_char (n mod 10)])"
  by pat_completeness auto

termination
  by (relation "measure id") auto

declare show_nat.simps [simp del]

definition show_int :: "int \<Rightarrow> string" where
  "show_int i = (if i < 0 then CHR ''-'' # show_nat (nat (- i)) else show_nat (nat i))"

definition dquote :: char where
  "dquote = CHR 0x22"

definition backslash :: char where
  "backslash = CHR 0x5C"

section \<open>JSON texts\<close>

text \<open>
  \<open>JSON.stringify\<close> on a string: the text between double quotes, with the quote, the
  backslash and the control characters escaped.
\<close>

definition quote_char :: "char \<Rightarrow> string" where
  "quote_char c =
     (if c = CHR 0x08 then [backslash, CHR ''b'']
      else if c = CHR 0x09 then [backslash, CHR ''t'']
      else if c = CHR 0x0A then [backslash, CHR ''n'']
      else if c = CHR 0x0C then [backslash, CHR ''f'']
      else if c = CHR 0x0D then [backslash, CHR ''r'']
      else if c = dquote then [backslash, dquote]
      else if c = backslash then [backslash, backslash]
      else if (of_char c :: nat) < 32 then
        [backslash, CHR ''u'', CHR ''0'', CHR ''0'',
         digit_char (of_char c div 16), digit_char (of_char c mod 16)]
      else [c])"

definition JSON_quote :: "string \<Rightarrow> string" where
  "JSON_quote s = dquote # concat (map quote_char s) @ [dquote]"

text \<open>
  The values \<open>JSON.stringify\<close> is applied to. An object is the list of its own
  properties in enumeration order.
\<close>

datatype json =
    JNull
  | JBool bool
  | JNum int
  | JStr string
  | JArr "json list"
  | JObj "(string \<times> json) list"

fun join_comma :: "string list \<Rightarrow> string" where
  "join_comma [] = []"
| "join_comma [x] = x"
| "join_comma (x # y # ys) = x @ CHR '','' # join_comma (y # ys)"

fun JSON_stringify :: "json \<Rightarrow> string" where
  "JSON_stringify JNull = ''null''"
| "JSON_stringify (JBool b) = (if b then ''true'' else ''false'')"
| "JSON_stringify (JNum n) = show_int n"
| "JSON_stringify (JStr s) = JSON_quote s"
| "JSON_stringify (JArr xs) = CHR ''['' # join_comma (map JSON_stringify xs) @ '']''"
| "JSON_stringify (JObj kvs) =
     CHR ''{'' # join_comma (map (\<lambda>kv. JSON_quote (fst kv) @ CHR '':'' # JSON_stringify (snd kv)) kvs)
       @ ''}''"

section \<open>The class Block\<close>

text \<open>
  \<open>Buffer(text).toString('hex')\<close>: the UTF-8 bytes of the text, two lower-case
  hexadecimal digits each. A code unit below U+0080 is one byte, one from U+0080 to U+00FF
  is two bytes.
\<close>

definition utf8_bytes :: "char \<Rightarrow> nat list" where
  "utf8_bytes c =
     (let n = of_char c in if n < 128 then [n] else [192 + n div 64, 128 + n mod 64])"

definition hex_byte :: "nat \<Rightarrow> string" where
  "hex_byte n = [digit_char (n div 16), digit_char (n mod 16)]"

definition to_hex :: "string \<Rightarrow> string" where
  "to_hex s = concat (map hex_byte (concat (map utf8_bytes s)))"

text \<open>
  The field \<open>time\<close> holds the number \<open>0\<close> after construction and a string of
  seconds once the block has been added.
\<close>

datatype timestamp = TNum int | TStr string

text \<open>
  The fields of a block in the order the constructor assigns them; \<open>owner\<close> is assigned
  later by \<open>submitStar\<close>, and \<open>None\<close> there means the property is absent. For
  \<open>hash\<close> and \<open>previousBlockHash\<close> the value \<open>None\<close> is \<open>null\<close>.
\<close>

record block =
  hash :: "string option"
  height :: int
  body :: string
  time :: timestamp
  previousBlockHash :: "string option"
  owner :: "string option"

definition Block :: "json \<Rightarrow> block" where
  "Block payload =
     \<lparr>hash = None, height = 0, body = to_hex (JSON_stringify payload), time = TNum 0,
      previousBlockHash = None, owner = None\<rparr>"

text \<open>The object \<open>JSON.stringify\<close> sees when it is given a block.\<close>

definition block_json :: "block \<Rightarrow> json" where
  "block_json b =
     JObj ([(''hash'', case hash b of None \<Rightarrow> JNull | Some h \<Rightarrow> JStr h),
            (''height'', JNum (height b)),
            (''body'', JStr (body b)),
            (''time'', case time b of TNum n \<Rightarrow> JNum n | TStr s \<Rightarrow> JStr s),
            (''previousBlockHash'',
               case previousBlockHash b of None \<Rightarrow> JNull | Some h \<Rightarrow> JStr h)]
           @ (case owner b of None \<Rightarrow> [] | Some a \<Rightarrow> [(''owner'', JStr a)]))"

text \<open>
  \<open>JSON.stringify({ ...self, hash: null })\<close>: the spread copies the properties in their
  order and \<open>hash\<close> keeps its place.
\<close>

definition block_text :: "block \<Rightarrow> string" where
  "block_text self = JSON_stringify (block_json (self\<lparr>hash := None\<rparr>))"

text \<open>
  \<open>SHA256(JSON.stringify({ ...self, hash: null })).toString()\<close>. The hash function is a
  parameter of the model.
\<close>

definition content_digest :: "(string \<Rightarrow> string) \<Rightarrow> block \<Rightarrow> string" where
  "content_digest SHA256 self = SHA256 (block_text self)"

text \<open>
  \<open>validate()\<close>: the promise's value and the block as the call leaves it. The
  recomputed digest is assigned to \<open>self.hash\<close> before the comparison.
\<close>

definition validate :: "(string \<Rightarrow> string) \<Rightarrow> block \<Rightarrow> bool \<times> block" where
  "validate SHA256 self =
     (let saved = hash self;
          self' = self\<lparr>hash := Some (content_digest SHA256 self)\<rparr>
      in (saved = hash self', self'))"

section \<open>Reading numbers out of strings\<close>

text \<open>
  \<open>parseInt\<close>: leading white space is skipped, then a sign, then (for radix 16 or no
  radix) a prefix \<open>0x\<close>; the longest run of digits of the radix is the number, and
  no digit at all is \<open>NaN\<close>.
\<close>

definition js_whitespace :: "char \<Rightarrow> bool" where
  "js_whitespace c \<longleftrightarrow> (of_char c :: nat) \<in> {9, 10, 11, 12, 13, 32, 160}"

definition digit_of :: "nat \<Rightarrow> char \<Rightarrow> nat option" where
  "digit_of radix c =
     (let n = (of_char c :: nat);
          v = (if 48 \<le> n \<and> n \<le> 57 then n - 48
               else if 97 \<le> n \<and> n \<le> 122 then n - 87
               else if 65 \<le> n \<and> n \<le> 90 then n - 55
               else 36)
      in if v < radix then Some v else None)"

definition digits_value :: "nat \<Rightarrow> string \<Rightarrow> nat" where
  "digits_value radix ds = foldl (\<lambda>a c. a * radix + (case digit_of radix c of None \<Rightarrow> 0 | Some v \<Rightarrow> v)) 0 ds"

definition parseInt_radix :: "nat \<Rightarrow> string \<Rightarrow> int option" where
  "parseInt_radix radix0 s =
     (let s1 = dropWhile js_whitespace s;
          neg = (s1 \<noteq> [] \<and> hd s1 = CHR ''-'');
          s2 = (if s1 \<noteq> [] \<and> (hd s1 = CHR ''-'' \<or> hd s1 = CHR ''+'') then tl s1 else s1);
          hexprefix = ((radix0 = 0 \<or> radix0 = 16) \<and> (take 2 s2 = ''0x'' \<or> take 2 s2 = ''0X''));
          radix = (if hexprefix then 16 else if radix0 = 0 then 10 else radix0);
          s3 = (if hexprefix then drop 2 s2 else s2);
          ds = takeWhile (\<lambda>c. digit_of radix c \<noteq> None) s3
      in if ds = [] then None
         else Some (if neg then - int (digits_value radix ds) else int (digits_value radix ds)))"

definition parseInt :: "string \<Rightarrow> int option" where
  "parseInt s = parseInt_radix 0 s"

text \<open>\<open>String.prototype.split\<close> on a one-character separator.\<close>

fun split_on :: "char \<Rightarrow> string \<Rightarrow> string list" where
  "split_on sep [] = [[]]"
| "split_on sep (c # cs) =
     (if c = sep then [] # split_on sep cs
      else case split_on sep cs of [] \<Rightarrow> [[c]] | x # xs \<Rightarrow> (c # x) # xs)"

section \<open>The class Blockchain\<close>

text \<open>
  The array \<open>chain\<close> can hold \<open>undefined\<close> (the value \<open>None\<close> of an element):
  \<open>_addBlock\<close> pushes whatever its promise chain hands on. The field \<open>height\<close> of
  the class is named \<open>chain_height\<close> here, since \<open>height\<close> is the field of a block.
\<close>

record blockchain =
  chain :: "block option list"
  chain_height :: int

text \<open>The constructor's two assignments, before \<open>initializeChain\<close> runs.\<close>

definition Blockchain_new :: blockchain where
  "Blockchain_new = \<lparr>chain = [], chain_height = - 1\<rparr>"

text \<open>
  \<open>new Date().getTime().toString().slice(0, -3)\<close>, the clock's reading in milliseconds
  being a parameter.
\<close>

definition time_slice :: "int \<Rightarrow> string" where
  "time_slice now = (let s = show_int now in take (length s - 3) s)"

text \<open>
  \<open>_addBlock(block)\<close>: the value the returned promise resolves with (\<open>None\<close> is
  \<open>undefined\<close>) and the ledger afterwards. When \<open>blockValid\<close> is false the executor
  rejects, \<open>catch\<close> logs the error and hands \<open>undefined\<close> to \<open>then\<close>, which pushes
  it and sets the height.
\<close>

definition addBlock ::
  "(string \<Rightarrow> string) \<Rightarrow> int \<Rightarrow> block \<Rightarrow> blockchain \<Rightarrow> block option \<times> blockchain" where
  "addBlock SHA256 now candidate self =
     (let h = length (chain self);
          prev = (if h = 0 then None
                  else case chain self ! (h - 1) of None \<Rightarrow> None | Some p \<Rightarrow> hash p);
          b1 = candidate\<lparr>previousBlockHash := prev, height := int h,
                 time := TStr (time_slice now)\<rparr>;
          b2 = b1\<lparr>hash := Some (SHA256 (JSON_stringify (block_json b1)))\<rparr>;
          blockValid =
            (case hash b2 of
               None \<Rightarrow> False
             | Some d \<Rightarrow>
                 d \<noteq> [] \<and> length d = 64 \<and> height b2 = int (length (chain self))
                 \<and> (case time b2 of TNum n \<Rightarrow> n \<noteq> 0 | TStr s \<Rightarrow> s \<noteq> []));
          settled = (if blockValid then Some b2 else None);
          chain' = chain self @ [settled]
      in (settled, self\<lparr>chain := chain', chain_height := int (length chain') - 1\<rparr>))"

definition genesis_payload :: json where
  "genesis_payload = JObj [(''data'', JStr ''Genesis Block'')]"

definition initializeChain :: "(string \<Rightarrow> string) \<Rightarrow> int \<Rightarrow> blockchain \<Rightarrow> blockchain" where
  "initializeChain SHA256 now self =
     (if chain_height self = - 1 then snd (addBlock SHA256 now (Block genesis_payload) self)
      else self)"

text \<open>
  A promise is pending until the first call of \<open>resolve\<close> or \<open>reject\<close>; later calls
  change nothing. An exception thrown inside an \<open>async\<close> executor reaches neither, so
  the promise stays as it was.
\<close>

datatype 'a promise = Pending | Resolved 'a | Rejected string

definition settle :: "'a promise \<Rightarrow> 'a promise \<Rightarrow> 'a promise" where
  "settle p q = (case p of Pending \<Rightarrow> q | _ \<Rightarrow> p)"

text \<open>
  What a call of \<open>submitStar\<close> leaves behind: the state of the returned promise, the
  ledger, and how often \<open>bitcoinMessage.verify\<close> was called.
\<close>

record submission =
  outcome :: "block option promise"
  ledger :: blockchain
  verify_calls :: nat

text \<open>
  \<open>parseInt(message.split(':')[1])\<close>: a missing second field is \<open>undefined\<close>, which
  \<open>parseInt\<close> reads as the text \<open>undefined\<close>.
\<close>

definition requestTime_of :: "string \<Rightarrow> int option" where
  "requestTime_of message =
     (case split_on (CHR '':'') message of
        _ # t # _ \<Rightarrow> parseInt t
      | _ \<Rightarrow> parseInt ''undefined'')"

text \<open>
  \<open>submitStar(address, message, signature, star)\<close>. The signature verifier is a
  parameter; it returns \<open>None\<close> where \<open>bitcoinMessage.verify\<close> throws. The clock is read
  twice, once here and once in \<open>_addBlock\<close>. Neither call of \<open>reject\<close> is followed by a
  \<open>return\<close>.
\<close>

definition submitStar ::
  "(string \<Rightarrow> string \<Rightarrow> string \<Rightarrow> bool option) \<Rightarrow> (string \<Rightarrow> string) \<Rightarrow> int \<Rightarrow> int \<Rightarrow>
     string \<Rightarrow> string \<Rightarrow> string \<Rightarrow> json \<Rightarrow> blockchain \<Rightarrow> submission" where
  "submitStar verify SHA256 now1 now2 address message signature star self =
     (let requestTime = requestTime_of message;
          currentTime = parseInt (time_slice now1);
          spendTime =
            (case (currentTime, requestTime) of
               (Some c, Some r) \<Rightarrow> Some (c - r)
             | _ \<Rightarrow> None);
          p1 = (if (case spendTime of None \<Rightarrow> False | Some d \<Rightarrow> d \<ge> 5 * 60)
                then Rejected ''Star submission request timed out.'' else Pending)
      in case verify message address signature of
           None \<Rightarrow> \<lparr>outcome = p1, ledger = self, verify_calls = 1\<rparr>
         | Some ok \<Rightarrow>
             (let p2 = (if \<not> ok then settle p1 (Rejected ''Invalid message.'') else p1);
                  candidate = (Block (JObj [(''star'', star)]))\<lparr>owner := Some address\<rparr>;
                  added = addBlock SHA256 now2 candidate self
              in \<lparr>outcome = settle p2 (Resolved (fst added)), ledger = snd added,
                  verify_calls = 1\<rparr>))"

text \<open>
  \<open>getBlockByHeight(height)\<close>: the first block of that height, or \<open>null\<close>. The filter's
  callback reads \<open>p.height\<close> of every element, which throws on \<open>undefined\<close>; the
  executor is not \<open>async\<close>, so the promise is then rejected.
\<close>

definition getBlockByHeight :: "blockchain \<Rightarrow> int \<Rightarrow> block option promise" where
  "getBlockByHeight self h =
     (case those (chain self) of
        None \<Rightarrow> Rejected ''TypeError''
      | Some bs \<Rightarrow> Resolved (find (\<lambda>p. height p = h) bs))"

text \<open>The messages of the two errors \<open>validateChain\<close> collects.\<close>

definition invalid_link :: "int \<Rightarrow> string" where
  "invalid_link h =
     ''Invalid link: Block #'' @ show_int h @ '' not linked to the hash of block #''
       @ show_int (h - 1) @ ''.''"

definition invalid_block :: "int \<Rightarrow> string option \<Rightarrow> string" where
  "invalid_block h d =
     ''Invalid block #'' @ show_int h @ '': '' @ (case d of None \<Rightarrow> ''null'' | Some x \<Rightarrow> x)"

text \<open>
  The loop of \<open>validateChain\<close>: the elements already visited (as \<open>validate\<close> left them),
  the elements still to visit, and the error log. The result is the array afterwards and
  the log, or \<open>None\<close> for the log when the executor threw: on an \<open>undefined\<close> element, or
  on \<open>prevBlock.hash\<close> when no block has the height looked for.
\<close>

fun validate_blocks ::
  "(string \<Rightarrow> string) \<Rightarrow> block option list \<Rightarrow> block option list \<Rightarrow> string list \<Rightarrow>
     block option list \<times> string list option" where
  "validate_blocks SHA256 seen [] errorLog = (seen, Some errorLog)"
| "validate_blocks SHA256 seen (None # todo) errorLog = (seen @ None # todo, None)"
| "validate_blocks SHA256 seen (Some b # todo) errorLog =
     (let ok = fst (validate SHA256 b);
          b' = snd (validate SHA256 b);
          chain' = seen @ Some b' # todo
      in if ok then
           if height b' > 0 then
             (case (case those chain' of
                      None \<Rightarrow> None
                    | Some bs \<Rightarrow> find (\<lambda>x. height x = height b' - 1) bs) of
                None \<Rightarrow> (chain', None)
              | Some prevBlock \<Rightarrow>
                  if previousBlockHash b' \<noteq> hash prevBlock
                  then validate_blocks SHA256 (seen @ [Some b']) todo
                         (errorLog @ [invalid_link (height b')])
                  else validate_blocks SHA256 (seen @ [Some b']) todo errorLog)
           else validate_blocks SHA256 (seen @ [Some b']) todo errorLog
         else validate_blocks SHA256 (seen @ [Some b']) todo
                (errorLog @ [invalid_block (height b') (hash b')]))"

text \<open>
  \<open>validateChain()\<close>: the promise and the ledger afterwards. A non-empty log is resolved
  as it is, an empty one as the string \<open>'No errors detected.'\<close>.
\<close>

datatype report = Message string | ErrorLog "string list"

definition validateChain :: "(string \<Rightarrow> string) \<Rightarrow> blockchain \<Rightarrow> report promise \<times> blockchain" where
  "validateChain SHA256 self =
     (case validate_blocks SHA256 [] (chain self) [] of
        (c, None) \<Rightarrow> (Pending, self\<lparr>chain := c\<rparr>)
      | (c, Some errorLog) \<Rightarrow>
          (Resolved (if length errorLog > 0 then ErrorLog errorLog
                     else Message ''No errors detected.''),
           self\<lparr>chain := c\<rparr>))"

section \<open>Notions used in the statements\<close>

text \<open>
  What \<open>_addBlock\<close> reads as the previous hash: the hash of the last element of the
  array, or \<open>null\<close> when the array is empty or its last element is \<open>undefined\<close>.
\<close>

definition tail_hash :: "blockchain \<Rightarrow> string option" where
  "tail_hash self =
     (if chain self = [] then None
      else case last (chain self) of None \<Rightarrow> None | Some p \<Rightarrow> hash p)"

text \<open>The candidate as \<open>_addBlock\<close> has filled it in and hashed it.\<close>

definition sealed :: "(string \<Rightarrow> string) \<Rightarrow> int \<Rightarrow> block \<Rightarrow> blockchain \<Rightarrow> block" where
  "sealed SHA256 now candidate self =
     (let b1 = candidate\<lparr>previousBlockHash := tail_hash self, height := int (length (chain self)),
                 time := TStr (time_slice now)\<rparr>
      in b1\<lparr>hash := Some (SHA256 (JSON_stringify (block_json b1)))\<rparr>)"

text \<open>
  The check \<open>blockValid\<close> of \<open>_addBlock\<close> when no other call has pushed in between:
  the digest has 64 characters and the time string is not empty.
\<close>

definition blockValid :: "(string \<Rightarrow> string) \<Rightarrow> int \<Rightarrow> block \<Rightarrow> blockchain \<Rightarrow> bool" where
  "blockValid SHA256 now candidate self \<longleftrightarrow>
     (case hash (sealed SHA256 now candidate self) of None \<Rightarrow> False | Some d \<Rightarrow> length d = 64)
     \<and> time_slice now \<noteq> []"

text \<open>
  The three stretches of \<open>_addBlock\<close>, between which other calls can run: the executor up
  to its \<open>await\<close> (it reads the array, fills in the candidate and computes the digest),
  the executor after the \<open>await\<close> (it stores the digest and checks the block against the
  array as it is by then), and the \<open>then\<close> callback two promise hops later (it pushes
  and sets the height).
\<close>

definition addBlock_prepare ::
  "(string \<Rightarrow> string) \<Rightarrow> int \<Rightarrow> block \<Rightarrow> blockchain \<Rightarrow> block \<times> string" where
  "addBlock_prepare SHA256 now candidate self =
     (let h = length (chain self);
          prev = (if h = 0 then None
                  else case chain self ! (h - 1) of None \<Rightarrow> None | Some p \<Rightarrow> hash p);
          b1 = candidate\<lparr>previousBlockHash := prev, height := int h,
                 time := TStr (time_slice now)\<rparr>
      in (b1, SHA256 (JSON_stringify (block_json b1))))"

definition addBlock_check :: "block \<times> string \<Rightarrow> blockchain \<Rightarrow> block option" where
  "addBlock_check prepared self =
     (let b2 = (fst prepared)\<lparr>hash := Some (snd prepared)\<rparr>;
          blockValid =
            (case hash b2 of
               None \<Rightarrow> False
             | Some d \<Rightarrow>
                 d \<noteq> [] \<and> length d = 64 \<and> height b2 = int (length (chain self))
                 \<and> (case time b2 of TNum n \<Rightarrow> n \<noteq> 0 | TStr s \<Rightarrow> s \<noteq> []))
      in if blockValid then Some b2 else None)"

definition addBlock_push :: "block option \<Rightarrow> blockchain \<Rightarrow> block option \<times> blockchain" where
  "addBlock_push settled self =
     (let chain' = chain self @ [settled]
      in (settled, self\<lparr>chain := chain', chain_height := int (length chain') - 1\<rparr>))"



text \<open>
  A run of blocks that starts at position \<open>n\<close> after a block whose hash is \<open>prev\<close>:
  every block has its position as its height, its digest as its stored hash and the hash
  of the block before it as its \<open>previousBlockHash\<close>.
\<close>

fun linked :: "(string \<Rightarrow> string) \<Rightarrow> string option \<Rightarrow> nat \<Rightarrow> block list \<Rightarrow> bool" where
  "linked SHA256 prev n [] = True"
| "linked SHA256 prev n (b # bs) =
     (height b = int n \<and> hash b = Some (content_digest SHA256 b) \<and> previousBlockHash b = prev
      \<and> linked SHA256 (hash b) (Suc n) bs)"

text \<open>
  The ledgers built by successful appends: \<open>initializeChain\<close> on the constructor's
  ledger, then \<open>_addBlock\<close> on blocks fresh from the constructor (with or without an
  owner), every append resolving with a block.
\<close>

inductive appended :: "(string \<Rightarrow> string) \<Rightarrow> blockchain \<Rightarrow> bool" for SHA256 where
  genesis:
    "fst (addBlock SHA256 now (Block genesis_payload) Blockchain_new) \<noteq> None \<Longrightarrow>
     appended SHA256 (initializeChain SHA256 now Blockchain_new)"
| next_block:
    "appended SHA256 st \<Longrightarrow>
     fst (addBlock SHA256 now ((Block payload)\<lparr>owner := ow\<rparr>) st) \<noteq> None \<Longrightarrow>
     appended SHA256 (snd (addBlock SHA256 now ((Block payload)\<lparr>owner := ow\<rparr>) st))"

text \<open>A ledger whose array holds a non-empty linked run of blocks from position \<open>0\<close>.\<close>

definition well_linked :: "(string \<Rightarrow> string) \<Rightarrow> blockchain \<Rightarrow> bool" where
  "well_linked SHA256 st \<longleftrightarrow>
     (\<exists>bs. chain st = map Some bs \<and> bs \<noteq> [] \<and> linked SHA256 None 0 bs
           \<and> chain_height st = int (length bs) - 1)"

text \<open>A block as \<open>validate\<close> leaves it.\<close>

definition revalidated :: "(string \<Rightarrow> string) \<Rightarrow> block \<Rightarrow> block" where
  "revalidated SHA256 b = b\<lparr>hash := Some (content_digest SHA256 b)\<rparr>"

text \<open>
  What one pass of the loop of \<open>validateChain\<close> owes the log for one record, given the
  digest the record before it was left with: the error for an invalid block when the stored
  hash is not the recomputed digest; otherwise, above height \<open>0\<close>, the error for an
  invalid link when \<open>previousBlockHash\<close> is not that digest; otherwise nothing.
\<close>

definition block_errors :: "(string \<Rightarrow> string) \<Rightarrow> string \<Rightarrow> block \<Rightarrow> string list" where
  "block_errors SHA256 prev_digest b =
     (if hash b = Some (content_digest SHA256 b)
      then (if height b > 0 \<and> previousBlockHash b \<noteq> Some prev_digest
            then [invalid_link (height b)] else [])
      else [invalid_block (height b) (Some (content_digest SHA256 b))])"

text \<open>The errors of the records of a chain, in the order of the chain.\<close>

fun chain_errors :: "(string \<Rightarrow> string) \<Rightarrow> string \<Rightarrow> block list \<Rightarrow> string list" where
  "chain_errors SHA256 d [] = []"
| "chain_errors SHA256 d (b # bs) =
     block_errors SHA256 d b @ chain_errors SHA256 (content_digest SHA256 b) bs"

text \<open>
  A stand-in for the hash function at concrete inputs: 64 hexadecimal digits, the last two
  the length of the text modulo 256.
\<close>

definition demo_digest :: "string \<Rightarrow> string" where
  "demo_digest s = replicate 62 (CHR ''0'') @ hex_byte (length s mod 256)"

text \<open>Two payloads and the ledgers they are submitted to, for the concrete inputs.\<close>

definition star1 :: json where
  "star1 = JObj [(''dec'', JStr ''68 52 56.9''), (''ra'', JStr ''16h 29m 1.0s''), (''story'', JStr ''Found star'')]"

definition star2 :: json where
  "star2 = JObj [(''dec'', JStr ''-26 29 24.9''), (''ra'', JStr ''17h 22m 13.1s''), (''story'', JStr ''Second star'')]"

definition ledger1 :: blockchain where
  "ledger1 = initializeChain demo_digest 1700000000123 Blockchain_new"

definition ledger2 :: blockchain where
  "ledger2 = ledger (submitStar (\<lambda>m a s. Some True) demo_digest 1700000100123 1700000100123
      ''1A2b'' ''1A2b:1700000000:starRegistry'' ''sig'' star1 ledger1)"


text \<open>
  The character an escape letter stands for in a JSON string.
\<close>

definition unescape :: "char \<Rightarrow> char option" where
  "unescape e =
     (if e = CHR ''b'' then Some (CHR 0x08)
      else if e = CHR ''t'' then Some (CHR 0x09)
      else if e = CHR ''n'' then Some (CHR 0x0A)
      else if e = CHR ''f'' then Some (CHR 0x0C)
      else if e = CHR ''r'' then Some (CHR 0x0D)
      else if e = dquote then Some dquote
      else if e = backslash then Some backslash
      else if e = CHR ''/'' then Some (CHR ''/'')
      else None)"

definition hex4_value :: "char \<Rightarrow> char \<Rightarrow> char \<Rightarrow> char \<Rightarrow> nat option" where
  "hex4_value a b c d =
     (case (digit_of 16 a, digit_of 16 b, digit_of 16 c, digit_of 16 d) of
        (Some w, Some x, Some y, Some z) \<Rightarrow> Some (((w * 16 + x) * 16 + y) * 16 + z)
      | _ \<Rightarrow> None)"

text \<open>
  The characters of a JSON string after its opening quote: the text they denote and the
  input after the closing quote.
\<close>

fun parse_chars :: "string \<Rightarrow> (string \<times> string) option" where
  "parse_chars [] = None"
| "parse_chars (c # cs) =
     (if c = dquote then Some ([], cs)
      else if c = backslash then
        (case cs of
           [] \<Rightarrow> None
         | e # r \<Rightarrow>
             if e = CHR ''u'' then
               (case r of
                  h1 # h2 # h3 # h4 # r' \<Rightarrow>
                    (case hex4_value h1 h2 h3 h4 of
                       None \<Rightarrow> None
                     | Some n \<Rightarrow>
                         if n < 256
                         then map_option (\<lambda>p. (char_of n # fst p, snd p)) (parse_chars r')
                         else None)
                | _ \<Rightarrow> None)
             else
               (case unescape e of
                  None \<Rightarrow> None
                | Some d \<Rightarrow> map_option (\<lambda>p. (d # fst p, snd p)) (parse_chars r)))
      else if (of_char c :: nat) < 32 then None
      else map_option (\<lambda>p. (c # fst p, snd p)) (parse_chars cs))"

text \<open>
  A change made to one field of a block from outside the application.
\<close>

datatype mutation =
    Set_hash "string option"
  | Set_height int
  | Set_body string
  | Set_time timestamp
  | Set_previousBlockHash "string option"
  | Set_owner "string option"

fun tamper :: "mutation \<Rightarrow> block \<Rightarrow> block" where
  "tamper (Set_hash x) b = b\<lparr>hash := x\<rparr>"
| "tamper (Set_height x) b = b\<lparr>height := x\<rparr>"
| "tamper (Set_body x) b = b\<lparr>body := x\<rparr>"
| "tamper (Set_time x) b = b\<lparr>time := x\<rparr>"
| "tamper (Set_previousBlockHash x) b = b\<lparr>previousBlockHash := x\<rparr>"
| "tamper (Set_owner x) b = b\<lparr>owner := x\<rparr>"

text \<open>The ledger after such a change to the record at position \<open>h\<close>.\<close>

definition tamper_at :: "nat \<Rightarrow> mutation \<Rightarrow> blockchain \<Rightarrow> blockchain" where
  "tamper_at h m st = st\<lparr>chain := (chain st)[h := map_option (tamper m) (chain st ! h)]\<rparr>"

text \<open>The texts of the fields of a block inside \<open>JSON.stringify\<close> of the block.\<close>

definition opt_text :: "string option \<Rightarrow> string" where
  "opt_text x = (case x of None \<Rightarrow> ''null'' | Some h \<Rightarrow> JSON_quote h)"

definition time_text :: "timestamp \<Rightarrow> string" where
  "time_text x = (case x of TNum n \<Rightarrow> show_int n | TStr s \<Rightarrow> JSON_quote s)"

definition owner_text :: "string option \<Rightarrow> string" where
  "owner_text x =
     (case x of None \<Rightarrow> [] | Some a \<Rightarrow> CHR '','' # JSON_quote ''owner'' @ CHR '':'' # JSON_quote a)"

text \<open>The concrete ledger after a second submission.\<close>

definition ledger3 :: blockchain where
  "ledger3 = ledger (submitStar (\<lambda>m a s. Some True) demo_digest 1700000200123 1700000200123
      ''1A2b'' ''1A2b:1700000150:starRegistry'' ''sig'' star2 ledger2)"

text \<open>The block \<open>submitStar\<close> hands to \<open>_addBlock\<close> for the first payload.\<close>

definition candidate1 :: block where
  "candidate1 = (Block (JObj [(''star'', star1)]))\<lparr>owner := Some ''1A2b''\<rparr>"

text \<open>The genesis block of the concrete ledgers, and the ledger of a failed first append.\<close>

definition genesis1 :: block where
  "genesis1 = sealed demo_digest 1700000000123 (Block genesis_payload) Blockchain_new"

definition undefined_ledger :: blockchain where
  "undefined_ledger = snd (addBlock demo_digest 999 (Block genesis_payload) Blockchain_new)"

text \<open>The second record of the concrete ledgers.\<close>

definition block1 :: block where
  "block1 = sealed demo_digest 1700000100123 candidate1 ledger1"

section \<open>Decoding the body\<close>







section \<open>Properties of validate\<close>

lemma content_digest_hash_update:
  "content_digest SHA256 (b\<lparr>hash := x\<rparr>) = content_digest SHA256 b"
  by (simp add: content_digest_def block_text_def)

text \<open>
  C9: whatever the record held before, once \<open>validate\<close> has completed the stored hash is
  the digest recomputed over the record's content with the hash field cleared, and a
  second call on the record as the first call left it returns true. The call changes no
  other field, and the digest it stores is the one of the content it was given.
\<close>

theorem validate_erases_evidence:
  "hash (snd (validate SHA256 b)) = Some (content_digest SHA256 (snd (validate SHA256 b)))
   \<and> fst (validate SHA256 (snd (validate SHA256 b))) = True
   \<and> snd (validate SHA256 b) = b\<lparr>hash := Some (content_digest SHA256 b)\<rparr>"
  by (simp add: validate_def Let_def content_digest_hash_update)

section \<open>Properties of \<open>_addBlock\<close>\<close>

lemma addBlock_eq:
  "addBlock SHA256 now candidate self =
     (if blockValid SHA256 now candidate self
      then (Some (sealed SHA256 now candidate self),
            self\<lparr>chain := chain self @ [Some (sealed SHA256 now candidate self)],
                 chain_height := int (length (chain self))\<rparr>)
      else (None, self\<lparr>chain := chain self @ [None], chain_height := int (length (chain self))\<rparr>))"
  by (auto simp add: addBlock_def blockValid_def sealed_def tail_hash_def Let_def last_conv_nth)

lemma sealed_fields:
  "height (sealed SHA256 now c self) = int (length (chain self))"
  "previousBlockHash (sealed SHA256 now c self) = tail_hash self"
  "time (sealed SHA256 now c self) = TStr (time_slice now)"
  "body (sealed SHA256 now c self) = body c"
  "owner (sealed SHA256 now c self) = owner c"
  by (simp_all add: sealed_def Let_def)

lemma sealed_digest:
  "hash c = None \<Longrightarrow>
   hash (sealed SHA256 now c self) = Some (content_digest SHA256 (sealed SHA256 now c self))"
  by (cases c) (simp add: sealed_def Let_def content_digest_def block_text_def)

lemma addBlock_length [simp]:
  "length (chain (snd (addBlock SHA256 now c self))) = Suc (length (chain self))"
  by (simp add: addBlock_eq)

lemma addBlock_chain_height [simp]:
  "chain_height (snd (addBlock SHA256 now c self)) = int (length (chain self))"
  by (simp add: addBlock_eq)

text \<open>validate and the loop keep heights and length\<close>

lemma validate_snd: "snd (validate SHA256 b) = b\<lparr>hash := Some (content_digest SHA256 b)\<rparr>"
  by (simp add: validate_def Let_def)

lemma validate_fst: "fst (validate SHA256 b) \<longleftrightarrow> hash b = Some (content_digest SHA256 b)"
  by (simp add: validate_def Let_def)


lemma addBlock_phases:
  "addBlock SHA256 now candidate self =
     addBlock_push (addBlock_check (addBlock_prepare SHA256 now candidate self) self) self"
  by (simp add: addBlock_def addBlock_prepare_def addBlock_check_def addBlock_push_def Let_def)

section \<open>The height of the ledger\<close>







section \<open>The links of the chain\<close>

lemma linked_append:
  "linked SHA256 prev n (xs @ ys) \<longleftrightarrow>
     linked SHA256 prev n xs
     \<and> linked SHA256 (if xs = [] then prev else hash (last xs)) (n + length xs) ys"
  by (induction xs arbitrary: prev n) auto

lemma linked_nth:
  assumes "linked SHA256 prev n bs" "i < length bs"
  shows "height (bs ! i) = int (n + i)
     \<and> hash (bs ! i) = Some (content_digest SHA256 (bs ! i))
     \<and> previousBlockHash (bs ! i) = (if i = 0 then prev else hash (bs ! (i - 1)))"
  using assms
proof (induction bs arbitrary: prev n i)
  case Nil
  then show ?case by simp
next
  case (Cons b bs)
  show ?case
  proof (cases i)
    case 0
    then show ?thesis using Cons.prems by simp
  next
    case (Suc k)
    then have "k < length bs" using Cons.prems by simp
    moreover have "linked SHA256 (hash b) (Suc n) bs"
      using Cons.prems(1) unfolding linked.simps by blast
    ultimately show ?thesis
      using Cons.IH [of "hash b" "Suc n" k] Suc by (cases k) auto
  qed
qed

lemma Block_hash [simp]: "hash ((Block payload)\<lparr>owner := ow\<rparr>) = None" "hash (Block payload) = None"
  by (simp_all add: Block_def)

lemma well_linked_addBlock:
  assumes "chain st = map Some bs" "linked SHA256 None 0 bs"
    and "hash c = None"
    and "fst (addBlock SHA256 now c st) \<noteq> None"
  shows "well_linked SHA256 (snd (addBlock SHA256 now c st))"
proof -
  let ?b = "sealed SHA256 now c st"
  have valid: "blockValid SHA256 now c st"
    using assms(4) by (simp add: addBlock_eq split: if_splits)
  have tail: "tail_hash st = (if bs = [] then None else hash (last bs))"
    using assms(1) by (simp add: tail_hash_def last_map)
  have "linked SHA256 None 0 (bs @ [?b])"
    using assms(1,2,3) tail
    by (simp add: linked_append sealed_fields sealed_digest)
  moreover have "chain (snd (addBlock SHA256 now c st)) = map Some (bs @ [?b])"
    using valid assms(1) by (simp add: addBlock_eq)
  moreover have "chain_height (snd (addBlock SHA256 now c st)) = int (length (bs @ [?b])) - 1"
    using assms(1) by simp
  ultimately show ?thesis
    unfolding well_linked_def by blast
qed

lemma appended_well_linked: "appended SHA256 st \<Longrightarrow> well_linked SHA256 st"
proof (induction rule: appended.induct)
  case (genesis now)
  have "well_linked SHA256 (snd (addBlock SHA256 now (Block genesis_payload) Blockchain_new))"
    using genesis by (intro well_linked_addBlock [where bs = "[]"]) (simp_all add: Blockchain_new_def)
  then show ?case by (simp add: initializeChain_def Blockchain_new_def)
next
  case (next_block st now payload ow)
  then obtain bs where "chain st = map Some bs" "linked SHA256 None 0 bs"
    unfolding well_linked_def by blast
  then show ?case
    using next_block.hyps(2) by (intro well_linked_addBlock [where bs = bs]) simp_all
qed

section \<open>The loop of \<open>validateChain\<close>\<close>

lemma those_map_Some [simp]: "those (map Some xs) = Some xs"
  by (induction xs) simp_all

lemma find_height:
  assumes "\<forall>i\<le>k. height (bs ! i) = int i" and "k < length bs"
  shows "find (\<lambda>x. height x = int k) bs = Some (bs ! k)"
proof -
  have "\<forall>j<k. height (bs ! j) \<noteq> int k"
    using assms by auto
  then show ?thesis
    using assms by (auto simp add: find_Some_iff intro!: exI [of _ k])
qed

lemma revalidated_fields [simp]:
  "height (revalidated SHA256 b) = height b"
  "previousBlockHash (revalidated SHA256 b) = previousBlockHash b"
  "hash (revalidated SHA256 b) = Some (content_digest SHA256 b)"
  "content_digest SHA256 (revalidated SHA256 b) = content_digest SHA256 b"
  by (simp_all add: revalidated_def content_digest_hash_update)

lemma validate_blocks_prefix:
  assumes "\<forall>i<length (seen @ todo). height ((seen @ todo) ! i) = int i"
    and "\<forall>x\<in>set seen. hash x = Some (content_digest SHA256 x)"
  shows "validate_blocks SHA256 (map Some seen) (map Some todo @ map Some rest) errs =
     validate_blocks SHA256 (map Some (seen @ map (revalidated SHA256) todo)) (map Some rest)
       (errs @ chain_errors SHA256
                 (if seen = [] then d else content_digest SHA256 (last seen)) todo)"
  using assms
proof (induction todo arbitrary: seen errs)
  case Nil
  then show ?case by simp
next
  case (Cons b todo)
  let ?b = "revalidated SHA256 b"
  let ?seen = "seen @ [?b]"
  have hb: "height b = int (length seen)"
    using Cons.prems(1) by (auto simp add: nth_append dest: spec [of _ "length seen"])
  have idx': "\<forall>i<length (?seen @ todo). height ((?seen @ todo) ! i) = int i"
  proof (intro allI impI)
    fix i assume "i < length (?seen @ todo)"
    then have "i < length (seen @ b # todo)" by simp
    then have "height ((seen @ b # todo) ! i) = int i"
      using Cons.prems(1) by blast
    then show "height ((?seen @ todo) ! i) = int i"
      by (cases "i = length seen") (auto simp add: nth_append nth_Cons split: nat.splits)
  qed
  have seen': "\<forall>x\<in>set ?seen. hash x = Some (content_digest SHA256 x)"
    using Cons.prems(2) by simp
  have IH: "validate_blocks SHA256 (map Some seen @ [Some ?b]) (map Some todo @ map Some rest) e =
     validate_blocks SHA256 (map Some (seen @ ?b # map (revalidated SHA256) todo)) (map Some rest)
       (e @ chain_errors SHA256 (content_digest SHA256 b) todo)" for e
    using Cons.IH [OF idx' seen', of e] by simp
  have chain': "those (map Some seen @ Some ?b # map Some todo @ map Some rest)
      = Some (seen @ ?b # todo @ rest)"
    using those_map_Some [of "seen @ ?b # todo @ rest"] by simp
  have look: "find (\<lambda>x. height x = height b - 1) (seen @ ?b # todo @ rest) = Some (last seen)"
    if "height b > 0"
  proof -
    have ne: "seen \<noteq> []" using that hb by auto
    have "\<forall>i\<le>length seen - 1. height ((seen @ ?b # todo @ rest) ! i) = int i"
    proof (intro allI impI)
      fix i assume "i \<le> length seen - 1"
      moreover have "length seen > 0" using ne by simp
      ultimately have "i < length seen" by linarith
      then show "height ((seen @ ?b # todo @ rest) ! i) = int i"
        using idx' by (auto simp add: nth_append dest: spec [of _ i])
    qed
    moreover have "length seen - 1 < length (seen @ ?b # todo @ rest)" by simp
    ultimately have "find (\<lambda>x. height x = int (length seen - 1)) (seen @ ?b # todo @ rest)
        = Some ((seen @ ?b # todo @ rest) ! (length seen - 1))"
      by (rule find_height)
    moreover have "(seen @ ?b # todo @ rest) ! (length seen - 1) = last seen"
      using ne by (simp add: nth_append last_conv_nth)
    moreover have "height b - 1 = int (length seen - 1)"
      using ne hb by (simp add: of_nat_diff Suc_leI)
    ultimately show ?thesis by simp
  qed
  have last_hash: "hash (last seen) = Some (content_digest SHA256 (last seen))" if "seen \<noteq> []"
    using Cons.prems(2) that by simp
  show ?case
  proof (cases "hash b = Some (content_digest SHA256 b)")
    case False
    then show ?thesis
      using IH by (simp add: validate_fst validate_snd Let_def block_errors_def
          revalidated_def [symmetric])
  next
    case True
    show ?thesis
    proof (cases "height b > 0")
      case False
      then show ?thesis
        using True IH by (simp add: validate_fst validate_snd Let_def block_errors_def
            revalidated_def [symmetric])
    next
      case pos: True
      then have ne: "seen \<noteq> []" using hb by auto
      show ?thesis
        using True pos ne IH look [OF pos] last_hash [OF ne]
        by (simp add: validate_fst validate_snd Let_def block_errors_def
            revalidated_def [symmetric] chain')
    qed
  qed
qed

lemma validate_blocks_closed:
  assumes "\<forall>i<length (seen @ todo). height ((seen @ todo) ! i) = int i"
    and "\<forall>x\<in>set seen. hash x = Some (content_digest SHA256 x)"
  shows "validate_blocks SHA256 (map Some seen) (map Some todo) errs =
     (map Some (seen @ map (revalidated SHA256) todo),
      Some (errs @ chain_errors SHA256
                     (if seen = [] then d else content_digest SHA256 (last seen)) todo))"
  using validate_blocks_prefix [OF assms, of "[]" errs d] by simp

lemma length_demo_digest [simp]: "length (demo_digest s) = 64"
  by (simp add: demo_digest_def hex_byte_def)

lemma demo_digest_not_Nil [simp]: "demo_digest s \<noteq> []"
  using length_demo_digest [of s] by (metis length_0_conv zero_neq_numeral)

lemma linked_no_errors:
  assumes "linked SHA256 prev n bs" and "n > 0 \<Longrightarrow> prev = Some d"
  shows "chain_errors SHA256 d bs = [] \<and> map (revalidated SHA256) bs = bs"
  using assms
proof (induction bs arbitrary: prev n d)
  case Nil
  then show ?case by simp
next
  case (Cons b bs)
  have b: "height b = int n" "hash b = Some (content_digest SHA256 b)" "previousBlockHash b = prev"
    and rest: "linked SHA256 (hash b) (Suc n) bs"
    using Cons.prems(1) unfolding linked.simps by blast+
  have "chain_errors SHA256 (content_digest SHA256 b) bs = [] \<and> map (revalidated SHA256) bs = bs"
    using Cons.IH [OF rest] b(2) by simp
  moreover have "block_errors SHA256 d b = []"
    using b Cons.prems(2) by (auto simp add: block_errors_def)
  moreover have "revalidated SHA256 b = b"
    using b(2) by (simp add: revalidated_def)
  ultimately show ?case by simp
qed

lemma linked_positions:
  assumes "linked SHA256 None 0 bs"
  shows "\<forall>i<length bs. height (bs ! i) = int i"
  using linked_nth [OF assms] by simp

lemma validateChain_well_linked:
  assumes "well_linked SHA256 st"
  shows "validateChain SHA256 st = (Resolved (Message ''No errors detected.''), st)"
proof -
  obtain bs where bs: "chain st = map Some bs" "linked SHA256 None 0 bs"
    using assms unfolding well_linked_def by blast
  have "validate_blocks SHA256 (map Some []) (map Some bs) [] =
      (map Some ([] @ map (revalidated SHA256) bs),
       Some ([] @ chain_errors SHA256 (if [] = ([] :: block list) then [] else content_digest SHA256 (last [])) bs))"
    using linked_positions [OF bs(2)] by (intro validate_blocks_closed) simp_all
  moreover have "chain_errors SHA256 [] bs = [] \<and> map (revalidated SHA256) bs = bs"
    using bs(2) by (rule linked_no_errors) simp
  ultimately have "validate_blocks SHA256 [] (chain st) [] = (chain st, Some [])"
    using bs(1) by simp
  then show ?thesis
    by (simp add: validateChain_def)
qed

lemma validateChain_positions:
  assumes "chain st = map Some bs" and "\<forall>i<length bs. height (bs ! i) = int i"
  shows "validateChain SHA256 st =
     (Resolved (if chain_errors SHA256 [] bs = [] then Message ''No errors detected.''
                else ErrorLog (chain_errors SHA256 [] bs)),
      st\<lparr>chain := map Some (map (revalidated SHA256) bs)\<rparr>)"
proof -
  have "validate_blocks SHA256 (map Some []) (map Some bs) [] =
      (map Some ([] @ map (revalidated SHA256) bs),
       Some ([] @ chain_errors SHA256 (if [] = ([] :: block list) then [] else content_digest SHA256 (last [])) bs))"
    using assms(2) by (intro validate_blocks_closed) simp_all
  then show ?thesis
    using assms(1) by (simp add: validateChain_def)
qed

lemma those_undefined: "None \<in> set xs \<Longrightarrow> those xs = None"
  by (induction xs) (auto split: option.splits)

lemma validate_blocks_undefined:
  "None \<in> set todo \<Longrightarrow> snd (validate_blocks SHA256 seen todo errs) = None"
proof (induction SHA256 seen todo errs rule: validate_blocks.induct)
  case (1 SHA256 seen errorLog)
  then show ?case by simp
next
  case (2 SHA256 seen todo errorLog)
  then show ?case by simp
next
  case (3 SHA256 seen b todo errorLog)
  then have rest: "None \<in> set todo" by simp
  then have "those (seen @ Some (snd (validate SHA256 b)) # todo) = None"
    by (intro those_undefined) simp
  then show ?case
    using 3 rest by (simp add: Let_def)
qed

lemma validateChain_undefined:
  assumes "None \<in> set (chain st)"
  shows "fst (validateChain SHA256 st) = Pending"
  using validate_blocks_undefined [OF assms, of SHA256 "[]" "[]"]
  by (cases "validate_blocks SHA256 [] (chain st) []") (simp add: validateChain_def)

lemma validateChain_never_empty_log:
  "fst (validateChain SHA256 st) \<noteq> Resolved (ErrorLog [])"
  by (auto simp add: validateChain_def split: prod.splits option.splits)

lemma well_linked_nth:
  assumes "well_linked SHA256 st" and "h < length (chain st)"
  shows "\<exists>r. chain st ! h = Some r \<and> height r = int h
     \<and> hash r = Some (content_digest SHA256 r)
     \<and> (if h = 0 then previousBlockHash r = None
         else \<exists>p. chain st ! (h - 1) = Some p
               \<and> getBlockByHeight st (height r - 1) = Resolved (Some p)
               \<and> previousBlockHash r = hash p)"
proof -
  obtain bs where bs: "chain st = map Some bs" "linked SHA256 None 0 bs"
    using assms(1) unfolding well_linked_def by blast
  have h: "h < length bs" using assms(2) bs(1) by simp
  have nth: "height (bs ! h) = int h" "hash (bs ! h) = Some (content_digest SHA256 (bs ! h))"
    "previousBlockHash (bs ! h) = (if h = 0 then None else hash (bs ! (h - 1)))"
    using linked_nth [OF bs(2) h] by simp_all
  have look: "getBlockByHeight st (int h - 1) = Resolved (Some (bs ! (h - 1)))" if "h > 0"
  proof -
    have "find (\<lambda>x. height x = int (h - 1)) bs = Some (bs ! (h - 1))"
      using linked_positions [OF bs(2)] h by (intro find_height) simp_all
    then have "getBlockByHeight st (int (h - 1)) = Resolved (Some (bs ! (h - 1)))"
      using bs(1) by (simp add: getBlockByHeight_def)
    moreover have "int h - 1 = int (h - 1)" using that by linarith
    ultimately show ?thesis by (simp only:)
  qed
  show ?thesis
  proof (cases "h = 0")
    case True
    then show ?thesis using nth h bs(1) by simp
  next
    case False
    then have "h - 1 < length bs" "h > 0" using h by simp_all
    then have "chain st ! (h - 1) = Some (bs ! (h - 1))" using bs(1) by simp
    moreover have "getBlockByHeight st (height (bs ! h) - 1) = Resolved (Some (bs ! (h - 1)))"
      using look \<open>h > 0\<close> nth(1) by simp
    moreover have "previousBlockHash (bs ! h) = hash (bs ! (h - 1))"
      using nth(3) False by simp
    ultimately show ?thesis
      using nth(1,2) h bs(1) False by simp
  qed
qed

text \<open>concrete ledgers\<close>

lemma time_slice_demo: "time_slice 1700000000123 = ''1700000000''"
  by (simp add: time_slice_def show_int_def show_nat.simps digit_char_def hexdigits_def)

lemma blockValid_demo: "time_slice now \<noteq> [] \<Longrightarrow> blockValid demo_digest now c st"
  by (simp add: blockValid_def sealed_def Let_def)

lemma addBlock_demo_succeeds: "fst (addBlock demo_digest 1700000000123 c st) \<noteq> None"
  by (simp add: addBlock_eq blockValid_demo time_slice_demo)

lemma appended_ledger1: "appended demo_digest ledger1"
  unfolding ledger1_def by (rule appended.genesis) (rule addBlock_demo_succeeds)

section \<open>Appends that should not happen\<close>

lemma time_slice_999: "time_slice 999 = []"
  by (simp add: time_slice_def show_int_def show_nat.simps digit_char_def hexdigits_def)

text \<open>
  C3, where the code departs from it: with the clock below one second the sealed block
  fails the check (its \<open>time\<close> is the empty string), yet the promise resolves (with
  \<open>undefined\<close>), the array grows by one element and the height goes from \<open>-1\<close> to
  \<open>0\<close>.
\<close>

theorem addBlock_invalid_pushes_undefined:
  "addBlock demo_digest 999 (Block genesis_payload) Blockchain_new
     = (None, \<lparr>chain = [None], chain_height = 0\<rparr>)"
  by (simp add: addBlock_eq blockValid_def time_slice_999 Blockchain_new_def)

lemma time_slice_1301: "time_slice 1301000 = ''1301''"
  by (simp add: time_slice_def show_int_def show_nat.simps digit_char_def hexdigits_def)

lemma parseInt_1301: "parseInt ''1301'' = Some 1301"
  by (simp add: parseInt_def parseInt_radix_def js_whitespace_def digit_of_def digits_value_def Let_def)

lemma parseInt_1000: "parseInt ''1000'' = Some 1000"
  by (simp add: parseInt_def parseInt_radix_def js_whitespace_def digit_of_def digits_value_def Let_def)

lemma length_ledger1: "length (chain ledger1) = 1" "chain_height ledger1 = 0"
  by (simp_all add: ledger1_def initializeChain_def Blockchain_new_def)

text \<open>
  C2, where the code departs from it: a challenge issued at second 1000 and submitted at
  second 1301 is rejected as timed out, yet the signature verifier is called and a block is
  appended, so the array and the height both grow by one.
\<close>

theorem submitStar_expired_still_appends:
  "outcome (submitStar (\<lambda>m a s. Some True) demo_digest 1301000 1700000000123
              ''1A2b'' ''1A2b:1000:starRegistry'' ''sig'' star1 ledger1)
     = Rejected ''Star submission request timed out.''
   \<and> verify_calls (submitStar (\<lambda>m a s. Some True) demo_digest 1301000 1700000000123
              ''1A2b'' ''1A2b:1000:starRegistry'' ''sig'' star1 ledger1) = 1
   \<and> length (chain (ledger (submitStar (\<lambda>m a s. Some True) demo_digest 1301000 1700000000123
              ''1A2b'' ''1A2b:1000:starRegistry'' ''sig'' star1 ledger1)))
       = length (chain ledger1) + 1
   \<and> chain_height (ledger (submitStar (\<lambda>m a s. Some True) demo_digest 1301000 1700000000123
              ''1A2b'' ''1A2b:1000:starRegistry'' ''sig'' star1 ledger1))
       = chain_height ledger1 + 1
   \<and> last (chain (ledger (submitStar (\<lambda>m a s. Some True) demo_digest 1301000 1700000000123
              ''1A2b'' ''1A2b:1000:starRegistry'' ''sig'' star1 ledger1))) \<noteq> None"
  by (simp add: submitStar_def requestTime_of_def Let_def time_slice_1301 parseInt_1301 parseInt_1000 settle_def
      length_ledger1 addBlock_eq blockValid_demo time_slice_demo)




text \<open>
  C4: in every ledger built by successful appends on the constructor's ledger (the genesis
  block first), the record at every position \<open>h\<close> has height \<open>h\<close> and a stored hash
  equal to the digest recomputed over its content with the hash field cleared; the genesis
  record has \<open>previousBlockHash\<close> null, and every later record's \<open>previousBlockHash\<close> is
  the hash of the record before it, which is also the record \<open>getBlockByHeight\<close> finds
  for the height minus one.
\<close>

theorem appended_chain_linked:
  assumes "appended SHA256 st" and "h < length (chain st)"
  shows "\<exists>r. chain st ! h = Some r \<and> height r = int h
     \<and> hash r = Some (content_digest SHA256 r)
     \<and> (if h = 0 then previousBlockHash r = None
         else \<exists>p. chain st ! (h - 1) = Some p
               \<and> getBlockByHeight st (height r - 1) = Resolved (Some p)
               \<and> previousBlockHash r = hash p)"
  using assms by (intro well_linked_nth appended_well_linked)

lemma appended_ledger2: "appended demo_digest ledger2"
proof -
  have eq: "ledger2 = snd (addBlock demo_digest 1700000100123
      ((Block (JObj [(''star'', star1)]))\<lparr>owner := Some ''1A2b''\<rparr>) ledger1)"
    by (simp add: ledger2_def submitStar_def Let_def)
  have "fst (addBlock demo_digest 1700000100123
      ((Block (JObj [(''star'', star1)]))\<lparr>owner := Some ''1A2b''\<rparr>) ledger1) \<noteq> None"
    by (simp add: addBlock_eq blockValid_demo time_slice_def show_int_def show_nat.simps
        digit_char_def hexdigits_def)
  then show ?thesis
    unfolding eq by (rule appended.next_block [OF appended_ledger1])
qed

lemma length_ledger2: "length (chain ledger2) = 2"
  by (simp add: ledger2_def submitStar_def Let_def length_ledger1)

theorem appended_chain_linked_witness:
  "appended demo_digest ledger2 \<and> (1::nat) < length (chain ledger2)
   \<and> (\<exists>r p. chain ledger2 ! 1 = Some r \<and> chain ledger2 ! 0 = Some p \<and> height r = 1
         \<and> hash r = Some (content_digest demo_digest r) \<and> previousBlockHash r = hash p)"
  using appended_chain_linked [OF appended_ledger2, of 1] appended_ledger2
  by (auto simp add: length_ledger2)

text \<open>
  C10: when the second colon-separated field of the message does not parse as a number,
  \<open>submitStar\<close> never rejects with the time-out error, whatever the clock reads: the
  verifier is called, and the promise is settled by what follows it alone (pending when
  the verifier throws, rejected as an invalid message when it returns false, and resolved
  with what \<open>_addBlock\<close> hands back when it returns true).
\<close>

theorem submitStar_unparsed_time_never_expires:
  assumes "requestTime_of message = None"
  shows "outcome (submitStar verify SHA256 now1 now2 address message signature star st)
           \<noteq> Rejected ''Star submission request timed out.''
     \<and> verify_calls (submitStar verify SHA256 now1 now2 address message signature star st) = 1
     \<and> outcome (submitStar verify SHA256 now1 now2 address message signature star st)
         = (case verify message address signature of
              None \<Rightarrow> Pending
            | Some ok \<Rightarrow>
                if ok
                then Resolved (fst (addBlock SHA256 now2
                       ((Block (JObj [(''star'', star)]))\<lparr>owner := Some address\<rparr>) st))
                else Rejected ''Invalid message.'')"
  using assms
  by (simp add: submitStar_def Let_def settle_def split: option.splits)

lemma requestTime_of_words: "requestTime_of ''1A2b:soon:starRegistry'' = None"
  by (simp add: requestTime_of_def parseInt_def parseInt_radix_def js_whitespace_def
      digit_of_def Let_def)

theorem submitStar_unparsed_time_never_expires_witness:
  "requestTime_of ''1A2b:soon:starRegistry'' = None
   \<and> outcome (submitStar (\<lambda>m a s. Some False) demo_digest 1700000999123 1700000999123
         ''1A2b'' ''1A2b:soon:starRegistry'' ''sig'' star1 ledger1) = Rejected ''Invalid message.''
   \<and> verify_calls (submitStar (\<lambda>m a s. Some False) demo_digest 1700000999123 1700000999123
         ''1A2b'' ''1A2b:soon:starRegistry'' ''sig'' star1 ledger1) = 1"
  using submitStar_unparsed_time_never_expires [OF requestTime_of_words,
      of "\<lambda>m a s. Some False" demo_digest 1700000999123 1700000999123 "''1A2b''" "''sig''"
         star1 ledger1]
    requestTime_of_words
  by simp

section \<open>Texts and the values they denote\<close>

lemma digit_of_digit_char:
  assumes "d < 16"
  shows "digit_of 16 (digit_char d) = Some d"
proof -
  have "d = 0 \<or> d = 1 \<or> d = 2 \<or> d = 3 \<or> d = 4 \<or> d = 5 \<or> d = 6 \<or> d = 7 \<or> d = 8
      \<or> d = 9 \<or> d = 10 \<or> d = 11 \<or> d = 12 \<or> d = 13 \<or> d = 14 \<or> d = 15"
    using assms by arith
  then show ?thesis
    by (elim disjE) (simp_all add: digit_of_def digit_char_def hexdigits_def)
qed

lemma digit_of_digit_char_10:
  assumes "d < 10"
  shows "digit_of 10 (digit_char d) = Some d"
proof -
  have "d = 0 \<or> d = 1 \<or> d = 2 \<or> d = 3 \<or> d = 4 \<or> d = 5 \<or> d = 6 \<or> d = 7 \<or> d = 8
      \<or> d = 9"
    using assms by arith
  then show ?thesis
    by (elim disjE) (simp_all add: digit_of_def digit_char_def hexdigits_def)
qed

lemma unescape_results:
  "unescape (CHR ''b'') = Some (CHR 0x08)" "unescape (CHR ''t'') = Some (CHR 0x09)"
  "unescape (CHR ''n'') = Some (CHR 0x0A)" "unescape (CHR ''f'') = Some (CHR 0x0C)"
  "unescape (CHR ''r'') = Some (CHR 0x0D)" "unescape dquote = Some dquote"
  "unescape backslash = Some backslash"
  by (simp_all add: unescape_def dquote_def backslash_def)

lemma hex4_of_control:
  assumes "n < 32"
  shows "hex4_value (CHR ''0'') (CHR ''0'') (digit_char (n div 16)) (digit_char (n mod 16)) = Some n"
proof -
  have "digit_of 16 (CHR ''0'') = Some 0"
    by (simp add: digit_of_def)
  moreover have "digit_of 16 (digit_char (n div 16)) = Some (n div 16)"
    using assms by (intro digit_of_digit_char) simp
  moreover have "digit_of 16 (digit_char (n mod 16)) = Some (n mod 16)"
    by (intro digit_of_digit_char) simp
  ultimately show ?thesis
    by (simp add: hex4_value_def)
qed

lemma parse_chars_quote_char:
  "parse_chars (quote_char c @ rest) = map_option (\<lambda>p. (c # fst p, snd p)) (parse_chars rest)"
proof -
  consider (b) "c = CHR 0x08" | (t) "c = CHR 0x09" | (n) "c = CHR 0x0A" | (f) "c = CHR 0x0C"
    | (r) "c = CHR 0x0D" | (q) "c = dquote" | (s) "c = backslash"
    | (u) "c \<notin> {CHR 0x08, CHR 0x09, CHR 0x0A, CHR 0x0C, CHR 0x0D, dquote, backslash}"
          "(of_char c :: nat) < 32"
    | (plain) "c \<notin> {CHR 0x08, CHR 0x09, CHR 0x0A, CHR 0x0C, CHR 0x0D, dquote, backslash}"
          "\<not> (of_char c :: nat) < 32"
    by blast
  then show ?thesis
  proof cases
    case u
    have "char_of (of_char c :: nat) = c" by simp
    then show ?thesis
      using u hex4_of_control [OF u(2)]
      by (simp add: quote_char_def dquote_def backslash_def)
  next
    case plain
    then show ?thesis
      by (simp add: quote_char_def)
  qed (simp_all add: quote_char_def unescape_results, simp_all add: dquote_def backslash_def)
qed

lemma parse_chars_quoted:
  "parse_chars (concat (map quote_char s) @ dquote # rest) = Some (s, rest)"
  by (induction s) (simp_all add: parse_chars_quote_char)

lemma JSON_quote_inject: "JSON_quote s = JSON_quote t \<longleftrightarrow> s = t"
proof
  assume "JSON_quote s = JSON_quote t"
  then have "parse_chars (concat (map quote_char s) @ dquote # []) =
      parse_chars (concat (map quote_char t) @ dquote # [])"
    by (simp add: JSON_quote_def)
  then show "s = t"
    by (simp only: parse_chars_quoted) simp
qed simp

lemma digits_value_snoc:
  "digits_value radix (ds @ [c]) =
     digits_value radix ds * radix + (case digit_of radix c of None \<Rightarrow> 0 | Some v \<Rightarrow> v)"
  by (simp add: digits_value_def)

lemma digits_value_show_nat: "digits_value 10 (show_nat n) = n"
proof (induction n rule: show_nat.induct)
  case (1 n)
  show ?case
  proof (cases "n < 10")
    case True
    then show ?thesis
      by (subst show_nat.simps) (simp add: digits_value_def digit_of_digit_char_10)
  next
    case False
    have "digit_of 10 (digit_char (n mod 10)) = Some (n mod 10)"
      by (intro digit_of_digit_char_10) simp
    then show ?thesis
      using False 1
      by (subst show_nat.simps) (simp add: digits_value_snoc)
  qed
qed

lemma show_nat_digits: "c \<in> set (show_nat n) \<Longrightarrow> digit_of 10 c \<noteq> None"
proof (induction n rule: show_nat.induct)
  case (1 n)
  have d: "digit_of 10 (digit_char (n mod 10)) = Some (n mod 10)"
    by (intro digit_of_digit_char_10) simp
  show ?case
  proof (cases "n < 10")
    case True
    then have "show_nat n = [digit_char n]" by (subst show_nat.simps) simp
    then show ?thesis using "1.prems" True by (simp add: digit_of_digit_char_10)
  next
    case False
    then have "show_nat n = show_nat (n div 10) @ [digit_char (n mod 10)]"
      by (subst show_nat.simps) simp
    then show ?thesis using "1.prems" "1.IH" False d by auto
  qed
qed

lemma show_nat_not_Nil: "show_nat n \<noteq> []"
  by (subst show_nat.simps) simp

lemma show_nat_inject: "show_nat m = show_nat n \<longleftrightarrow> m = n"
  using digits_value_show_nat by metis

lemma show_nat_no_minus: "show_nat n \<noteq> CHR ''-'' # s"
proof
  assume "show_nat n = CHR ''-'' # s"
  then have "CHR ''-'' \<in> set (show_nat n)" by simp
  then have "digit_of 10 (CHR ''-'') \<noteq> None" by (rule show_nat_digits)
  then show False by (simp add: digit_of_def)
qed

lemma show_nat_no_dquote: "show_nat n \<noteq> dquote # s"
proof
  assume "show_nat n = dquote # s"
  then have "dquote \<in> set (show_nat n)" by simp
  then have "digit_of 10 dquote \<noteq> None" by (rule show_nat_digits)
  then show False by (simp add: digit_of_def dquote_def)
qed

lemma show_int_inject: "show_int i = show_int j \<longleftrightarrow> i = j"
proof
  assume eq: "show_int i = show_int j"
  show "i = j"
  proof (cases "i < 0"; cases "j < 0")
    assume "i < 0" "j < 0"
    then show ?thesis using eq by (simp add: show_int_def show_nat_inject)
  next
    assume "i < 0" "\<not> j < 0"
    then show ?thesis using eq show_nat_no_minus [of "nat j"] by (simp add: show_int_def) metis
  next
    assume "\<not> i < 0" "j < 0"
    then show ?thesis using eq show_nat_no_minus [of "nat i"] by (simp add: show_int_def)
  next
    assume "\<not> i < 0" "\<not> j < 0"
    then show ?thesis using eq by (simp add: show_int_def show_nat_inject)
  qed
qed simp

lemma show_int_no_dquote: "show_int i \<noteq> dquote # s"
  using show_nat_no_dquote by (simp add: show_int_def dquote_def)

lemma JSON_quote_not_null: "JSON_quote h \<noteq> ''null''" "''null'' \<noteq> JSON_quote h"
  by (simp_all add: JSON_quote_def dquote_def)

lemma show_int_not_quote: "show_int i \<noteq> JSON_quote s" "JSON_quote s \<noteq> show_int i"
  using show_int_no_dquote [of i] by (simp_all add: JSON_quote_def) metis

lemma opt_text_inject: "opt_text x = opt_text y \<longleftrightarrow> x = y"
  by (auto simp add: opt_text_def JSON_quote_inject JSON_quote_not_null split: option.splits)

lemma time_text_inject: "time_text x = time_text y \<longleftrightarrow> x = y"
  by (auto simp add: time_text_def JSON_quote_inject show_int_inject show_int_not_quote
      split: timestamp.splits)

lemma owner_text_inject: "owner_text x = owner_text y \<longleftrightarrow> x = y"
  by (auto simp add: owner_text_def JSON_quote_inject split: option.splits)

lemma block_text_parts:
  "block_text b =
     (CHR ''{'' # JSON_quote ''hash'' @ CHR '':'' # ''null'')
     @ (CHR '','' # JSON_quote ''height'' @ [CHR '':'']) @ show_int (height b)
     @ (CHR '','' # JSON_quote ''body'' @ [CHR '':'']) @ JSON_quote (body b)
     @ (CHR '','' # JSON_quote ''time'' @ [CHR '':'']) @ time_text (time b)
     @ (CHR '','' # JSON_quote ''previousBlockHash'' @ [CHR '':''])
     @ opt_text (previousBlockHash b)
     @ owner_text (owner b) @ ''}''"
  by (simp add: block_text_def block_json_def opt_text_def time_text_def owner_text_def
      split: option.splits timestamp.splits)

lemma block_text_tamper:
  assumes "block_text (tamper m b) = block_text b"
  shows "tamper m b = b \<or> (\<exists>x. m = Set_hash x)"
proof (cases m)
  case (Set_hash x)
  then show ?thesis by simp
next
  case (Set_height x)
  then show ?thesis
    using assms by (simp add: block_text_parts show_int_inject)
next
  case (Set_body x)
  then show ?thesis
    using assms by (simp add: block_text_parts JSON_quote_inject)
next
  case (Set_time x)
  then show ?thesis
    using assms by (simp add: block_text_parts time_text_inject)
next
  case (Set_previousBlockHash x)
  then show ?thesis
    using assms by (simp add: block_text_parts opt_text_inject)
next
  case (Set_owner x)
  then show ?thesis
    using assms by (simp add: block_text_parts owner_text_inject)
qed

section \<open>Records changed from outside\<close>

lemma chain_errors_append:
  "chain_errors SHA256 d (xs @ ys) =
     chain_errors SHA256 d xs
     @ chain_errors SHA256 (if xs = [] then d else content_digest SHA256 (last xs)) ys"
  by (induction xs arbitrary: d) simp_all

lemma tampered_hash_mismatch:
  assumes "hash b = Some (content_digest SHA256 b)"
    and "tamper m b \<noteq> b"
    and "content_digest SHA256 (tamper m b) = content_digest SHA256 b \<longrightarrow>
         block_text (tamper m b) = block_text b"
  shows "hash (tamper m b) \<noteq> Some (content_digest SHA256 (tamper m b))"
proof (cases "\<exists>x. m = Set_hash x")
  case True
  then obtain x where m: "m = Set_hash x" by blast
  then have "x \<noteq> hash b" using assms(2) by auto
  then show ?thesis
    using assms(1) m by (simp add: content_digest_hash_update)
next
  case False
  then have "block_text (tamper m b) \<noteq> block_text b"
    using block_text_tamper [of m b] assms(2) by blast
  then have "content_digest SHA256 (tamper m b) \<noteq> content_digest SHA256 b"
    using assms(3) by blast
  moreover have "hash (tamper m b) = hash b"
    using False by (cases m) simp_all
  ultimately show ?thesis
    using assms(1) by simp
qed

lemma validateChain_tampered:
  assumes wl: "well_linked SHA256 st"
    and h: "0 < h" "h < length (chain st)"
    and b: "chain st ! h = Some b"
    and b': "height b' = height b" "hash b' \<noteq> Some (content_digest SHA256 b')"
  shows "validateChain SHA256 (st\<lparr>chain := (chain st)[h := Some b']\<rparr>) =
     (Resolved (ErrorLog
        (invalid_block (int h) (Some (content_digest SHA256 b'))
         # (if Suc h < length (chain st) \<and> Some (content_digest SHA256 b') \<noteq> hash b
            then [invalid_link (int h + 1)] else []))),
      st\<lparr>chain := (chain st)[h := Some (revalidated SHA256 b')]\<rparr>)"
proof -
  obtain bs where bs: "chain st = map Some bs" "linked SHA256 None 0 bs"
    using wl unfolding well_linked_def by blast
  have hl: "h < length bs" using h(2) bs(1) by simp
  have bh: "bs ! h = b" using b bs(1) hl by simp
  let ?pre = "take h bs" and ?post = "drop (Suc h) bs"
  have split: "bs = ?pre @ b # ?post"
    unfolding bh [symmetric] by (rule id_take_nth_drop [OF hl])
  have pre_ne: "?pre \<noteq> []" using h(1) hl by auto
  have lk: "linked SHA256 None 0 ?pre"
    "height b = int h" "hash b = Some (content_digest SHA256 b)"
    "linked SHA256 (hash b) (Suc h) ?post"
  proof -
    have "linked SHA256 None 0 (?pre @ b # ?post)" using bs(2) split by simp
    then have a: "linked SHA256 None 0 ?pre"
      and c: "linked SHA256 (hash (last ?pre)) (0 + length ?pre) (b # ?post)"
      using pre_ne by (simp_all only: linked_append if_False)
    show "linked SHA256 None 0 ?pre" by (rule a)
    have len: "length ?pre = h" using hl by simp
    have "linked SHA256 (hash (last ?pre)) h (b # ?post)"
      using c by (simp only: len add_0)
    then show "height b = int h" "hash b = Some (content_digest SHA256 b)"
      "linked SHA256 (hash b) (Suc h) ?post"
      unfolding linked.simps by blast+
  qed
  let ?bs' = "bs[h := b']"
  have split': "?bs' = ?pre @ b' # ?post"
    using hl by (simp add: upd_conv_take_nth_drop)
  have idx: "\<forall>i<length ([] @ ?bs'). height (([] @ ?bs') ! i) = int i"
    using linked_positions [OF bs(2)] b'(1) lk(2) hl by (auto simp add: nth_list_update)
  have loop: "validate_blocks SHA256 (map Some []) (map Some ?bs') [] =
      (map Some ([] @ map (revalidated SHA256) ?bs'),
       Some ([] @ chain_errors SHA256
          (if [] = ([] :: block list) then [] else content_digest SHA256 (last [])) ?bs'))"
    using idx by (intro validate_blocks_closed) simp_all
  have same: "map (revalidated SHA256) bs = bs"
    using linked_no_errors [OF bs(2), of "[]"] by simp
  have chain': "map Some (map (revalidated SHA256) ?bs') = (chain st)[h := Some (revalidated SHA256 b')]"
    using same bs(1) by (simp add: map_update)
  have pre_errors: "chain_errors SHA256 [] ?pre = []"
    using linked_no_errors [OF lk(1), of "[]"] by simp
  have post_errors: "chain_errors SHA256 (content_digest SHA256 b') ?post =
      (if Suc h < length (chain st) \<and> Some (content_digest SHA256 b') \<noteq> hash b
       then [invalid_link (int h + 1)] else [])"
  proof (cases ?post)
    case Nil
    then have "\<not> Suc h < length bs" by simp
    then show ?thesis using Nil bs(1) by simp
  next
    case (Cons p ps)
    then have more: "Suc h < length (chain st)" using bs(1)
      by (metis drop_eq_Nil length_map list.distinct(1) not_le)
    have "linked SHA256 (hash b) (Suc h) (p # ps)"
      using lk(4) by (simp only: Cons)
    then have p: "height p = int (Suc h)" "hash p = Some (content_digest SHA256 p)"
      "previousBlockHash p = hash b" "linked SHA256 (hash p) (Suc (Suc h)) ps"
      unfolding linked.simps by blast+
    have "chain_errors SHA256 (content_digest SHA256 p) ps = []"
      using linked_no_errors [OF p(4), of "content_digest SHA256 p"] p(2) by simp
    then show ?thesis
      using Cons more p(1,2,3) by (auto simp add: block_errors_def add.commute)
  qed
  have here: "block_errors SHA256 d b' = [invalid_block (int h) (Some (content_digest SHA256 b'))]"
    for d
    using b' lk(2) by (simp add: block_errors_def)
  have "chain_errors SHA256 [] ?bs' =
      invalid_block (int h) (Some (content_digest SHA256 b'))
      # (if Suc h < length (chain st) \<and> Some (content_digest SHA256 b') \<noteq> hash b
         then [invalid_link (int h + 1)] else [])"
    using pre_errors post_errors here pre_ne
    by (simp add: split' chain_errors_append del: chain_errors.simps(2))
      (simp add: here post_errors)
  then have "validate_blocks SHA256 [] (map Some ?bs') [] =
      ((chain st)[h := Some (revalidated SHA256 b')],
       Some (invalid_block (int h) (Some (content_digest SHA256 b'))
        # (if Suc h < length (chain st) \<and> Some (content_digest SHA256 b') \<noteq> hash b
           then [invalid_link (int h + 1)] else [])))"
    using loop chain' by simp
  moreover have "(chain st)[h := Some b'] = map Some ?bs'"
    using bs(1) by (simp add: map_update)
  ultimately show ?thesis
    by (simp add: validateChain_def)
qed

lemma validate_blocks_genesis_like:
  assumes "height b \<le> 0"
  shows "\<exists>e2. validate_blocks SHA256 seen (Some b # todo) e1 =
     validate_blocks SHA256 (seen @ [Some (revalidated SHA256 b)]) todo e2"
  using assms by (auto simp add: validate_fst validate_snd Let_def revalidated_def [symmetric])

lemma validate_blocks_missing_prev:
  assumes "hash p = Some (content_digest SHA256 p)" and "height p > 0"
    and "those (seen @ Some p # todo) = Some xs"
    and "find (\<lambda>x. height x = height p - 1) xs = None"
  shows "snd (validate_blocks SHA256 seen (Some p # todo) e) = None"
proof -
  have "revalidated SHA256 p = p"
    using assms(1) by (simp add: revalidated_def)
  then show ?thesis
    using assms by (simp add: validate_fst validate_snd Let_def revalidated_def [symmetric])
qed

lemma validateChain_height_zeroed:
  assumes wl: "well_linked SHA256 st"
    and h: "0 < h" "Suc h < length (chain st)"
  shows "fst (validateChain SHA256 (tamper_at h (Set_height 0) st)) = Pending"
proof -
  obtain bs where bs: "chain st = map Some bs" "linked SHA256 None 0 bs"
    using wl unfolding well_linked_def by blast
  have hl: "Suc h < length bs" using h(2) bs(1) by simp
  define b where "b = bs ! h"
  define p where "p = bs ! Suc h"
  let ?pre = "take h bs" and ?post = "drop (Suc (Suc h)) bs"
  have split: "bs = ?pre @ b # p # ?post"
    using hl unfolding b_def p_def
    by (metis Cons_nth_drop_Suc Suc_lessD append_take_drop_id)
  have pos: "\<forall>i<length bs. height (bs ! i) = int i"
    by (rule linked_positions [OF bs(2)])
  have p: "height p = int (Suc h)" "hash p = Some (content_digest SHA256 p)"
    using linked_nth [OF bs(2) hl] unfolding p_def by simp_all
  let ?b0 = "tamper (Set_height 0) b"
  have tampered: "chain (tamper_at h (Set_height 0) st) = map Some (?pre @ ?b0 # p # ?post)"
  proof -
    have "(chain st)[h := map_option (tamper (Set_height 0)) (chain st ! h)]
        = map Some (bs[h := ?b0])"
      using bs(1) hl by (simp add: map_update b_def)
    moreover have "bs[h := ?b0] = ?pre @ ?b0 # p # ?post"
      using hl unfolding p_def
      by (metis Cons_nth_drop_Suc Suc_lessD upd_conv_take_nth_drop)
    ultimately show ?thesis by (simp add: tamper_at_def)
  qed
  have pre_lk: "linked SHA256 None 0 ?pre"
  proof -
    have "linked SHA256 None 0 (?pre @ drop h bs)" using bs(2) by simp
    then show ?thesis unfolding linked_append by blast
  qed
  have pre_same: "map (revalidated SHA256) ?pre = ?pre"
    using linked_no_errors [OF pre_lk, of "[]"] by simp
  have pre_idx: "\<forall>i<length ([] @ ?pre). height (([] @ ?pre) ! i) = int i"
    using pos by simp
  have step1: "validate_blocks SHA256 [] (map Some (?pre @ ?b0 # p # ?post)) [] =
      validate_blocks SHA256 (map Some ?pre) (map Some (?b0 # p # ?post)) e1"
    if "e1 = chain_errors SHA256 [] ?pre" for e1
    using validate_blocks_prefix [OF pre_idx, of SHA256 "?b0 # p # ?post" "[]" "[]"] pre_same that
    by simp
  let ?b1 = "revalidated SHA256 ?b0"
  have step2: "\<exists>e2. validate_blocks SHA256 (map Some ?pre) (map Some (?b0 # p # ?post)) e1 =
      validate_blocks SHA256 (map Some ?pre @ [Some ?b1]) (map Some (p # ?post)) e2" for e1
    using validate_blocks_genesis_like [of ?b0 SHA256 "map Some ?pre" "map Some (p # ?post)" e1]
    by simp
  let ?xs = "?pre @ ?b1 # p # ?post"
  have no_match: "find (\<lambda>x. height x = int h) ?xs = None"
  proof -
    have "height x \<noteq> int h" if mem: "x \<in> set ?xs" for x
    proof -
      consider "x \<in> set ?pre" | "x = ?b1" | "x = p" | "x \<in> set ?post"
        using mem by auto
      then show ?thesis
      proof cases
        case 1
        then obtain i where "i < length ?pre" "?pre ! i = x"
          by (auto simp add: in_set_conv_nth)
        then have "i < h" "height x = int i" using pos hl by auto
        then show ?thesis by simp
      next
        case 2
        then show ?thesis using h(1) by simp
      next
        case 3
        then show ?thesis using p(1) by simp
      next
        case 4
        then obtain i where "i < length ?post" "?post ! i = x"
          by (auto simp add: in_set_conv_nth)
        then have "height x = int (Suc (Suc h) + i)" using pos hl by auto
        then show ?thesis by simp
      qed
    qed
    then show ?thesis by (auto simp add: find_None_iff)
  qed
  have step3: "snd (validate_blocks SHA256 (map Some ?pre @ [Some ?b1]) (map Some (p # ?post)) e2)
      = None" for e2
  proof -
    have "those ((map Some ?pre @ [Some ?b1]) @ Some p # map Some ?post) = Some ?xs"
      using those_map_Some [of ?xs] by simp
    moreover have "height p - 1 = int h" using p(1) by simp
    moreover have "height p > 0" using p(1) by simp
    ultimately have "snd (validate_blocks SHA256 (map Some ?pre @ [Some ?b1])
        (Some p # map Some ?post) e2) = None"
      using p(2) no_match by (intro validate_blocks_missing_prev) simp_all
    then show ?thesis by simp
  qed
  obtain e2 where "validate_blocks SHA256 [] (map Some (?pre @ ?b0 # p # ?post)) [] =
      validate_blocks SHA256 (map Some ?pre @ [Some ?b1]) (map Some (p # ?post)) e2"
    using step1 [OF refl] step2 by metis
  then have "snd (validate_blocks SHA256 [] (chain (tamper_at h (Set_height 0) st)) []) = None"
    using step3 tampered by simp
  then show ?thesis
    by (cases "validate_blocks SHA256 [] (chain (tamper_at h (Set_height 0) st)) []")
      (simp add: validateChain_def)
qed

text \<open>
  For every field but the height the code reports a change as C5 says: take a ledger built
  by successful appends and change one field
  other than the height of the record at a position \<open>h > 0\<close>, and let the hash function
  not collide on the record's text before and after the change. Then \<open>validate\<close> on the
  changed record returns false, and one call of \<open>validateChain\<close> resolves with the error
  for an invalid block at \<open>h\<close>, followed, when a record at \<open>h + 1\<close> exists and the digest
  just recomputed differs from the hash it was linked to, by the error for an invalid link
  at \<open>h + 1\<close>, and by nothing else: every later record is visited and found in order.
  The call leaves the recomputed digest in the changed record.
\<close>

theorem tampering_reported:
  assumes "appended SHA256 st"
    and "0 < h" and "h < length (chain st)" and "chain st ! h = Some b"
    and "tamper m b \<noteq> b" and "height (tamper m b) = height b"
    and "content_digest SHA256 (tamper m b) = content_digest SHA256 b \<longrightarrow>
         block_text (tamper m b) = block_text b"
  shows "fst (validate SHA256 (tamper m b)) = False
     \<and> validateChain SHA256 (tamper_at h m st) =
         (Resolved (ErrorLog
            (invalid_block (int h) (Some (content_digest SHA256 (tamper m b)))
             # (if Suc h < length (chain st)
                   \<and> Some (content_digest SHA256 (tamper m b)) \<noteq> hash b
                then [invalid_link (int h + 1)] else []))),
          st\<lparr>chain := (chain st)[h := Some (revalidated SHA256 (tamper m b))]\<rparr>)"
proof -
  have wl: "well_linked SHA256 st"
    using assms(1) by (rule appended_well_linked)
  obtain r where "chain st ! h = Some r" "hash r = Some (content_digest SHA256 r)"
    using well_linked_nth [OF wl assms(3)] by blast
  then have sealed: "hash b = Some (content_digest SHA256 b)"
    using assms(4) by simp
  have mismatch: "hash (tamper m b) \<noteq> Some (content_digest SHA256 (tamper m b))"
    using sealed assms(5,7) by (rule tampered_hash_mismatch)
  have "tamper_at h m st = st\<lparr>chain := (chain st)[h := Some (tamper m b)]\<rparr>"
    using assms(4) by (simp add: tamper_at_def)
  then show ?thesis
    using validateChain_tampered [OF wl assms(2,3,4,6) mismatch] mismatch
    by (simp add: validate_fst)
qed

lemma hex_byte_inject:
  assumes "hex_byte a = hex_byte b" and "a < 256" and "b < 256"
  shows "a = b"
proof -
  have "digit_of 16 (digit_char (a div 16)) = digit_of 16 (digit_char (b div 16))"
    and "digit_of 16 (digit_char (a mod 16)) = digit_of 16 (digit_char (b mod 16))"
    using assms(1) by (simp_all add: hex_byte_def)
  moreover have "a div 16 < 16" "b div 16 < 16" "a mod 16 < 16" "b mod 16 < 16"
    using assms(2,3) by simp_all
  ultimately have "a div 16 = b div 16" "a mod 16 = b mod 16"
    by (simp_all add: digit_of_digit_char)
  then show ?thesis
    by (metis div_mult_mod_eq)
qed

lemma demo_digest_eq:
  "demo_digest s = demo_digest t \<Longrightarrow> length s mod 256 = length t mod 256"
  by (intro hex_byte_inject) (simp_all add: demo_digest_def)

lemma chain_ledger1:
  "chain ledger1 = [Some (sealed demo_digest 1700000000123 (Block genesis_payload) Blockchain_new)]"
  by (simp add: ledger1_def initializeChain_def addBlock_eq blockValid_demo time_slice_demo
      Blockchain_new_def)

lemma time_slice_100: "time_slice 1700000100123 = ''1700000100''"
  by (simp add: time_slice_def show_int_def show_nat.simps digit_char_def hexdigits_def)

lemma time_slice_200: "time_slice 1700000200123 = ''1700000200''"
  by (simp add: time_slice_def show_int_def show_nat.simps digit_char_def hexdigits_def)

lemma chain_ledger2:
  "chain ledger2 = chain ledger1 @ [Some (sealed demo_digest 1700000100123 candidate1 ledger1)]"
  by (simp add: ledger2_def submitStar_def Let_def addBlock_eq blockValid_demo time_slice_100
      candidate1_def)

lemma ledger3_eq:
  "ledger3 = snd (addBlock demo_digest 1700000200123
      ((Block (JObj [(''star'', star2)]))\<lparr>owner := Some ''1A2b''\<rparr>) ledger2)"
  by (simp add: ledger3_def submitStar_def Let_def)

lemma appended_ledger3: "appended demo_digest ledger3"
proof -
  have "fst (addBlock demo_digest 1700000200123
      ((Block (JObj [(''star'', star2)]))\<lparr>owner := Some ''1A2b''\<rparr>) ledger2) \<noteq> None"
    by (simp add: addBlock_eq blockValid_demo time_slice_200)
  then show ?thesis
    unfolding ledger3_eq by (rule appended.next_block [OF appended_ledger2])
qed

lemma chain_ledger3:
  "length (chain ledger3) = 3"
  "chain ledger3 ! 1 = Some (sealed demo_digest 1700000100123 candidate1 ledger1)"
  by (simp_all add: ledger3_eq addBlock_eq blockValid_demo time_slice_200 chain_ledger2
      chain_ledger1 nth_append)

text \<open>
  C6, as the code has it: on every ledger built by successful appends \<open>validateChain\<close>
  resolves with the string \<open>'No errors detected.'\<close> and leaves the ledger as it was. On
  every ledger whose records are all present, each at the height of its position, it
  resolves with the accumulated errors (one per record, in the order of the chain) when
  there are any and with that string when there are none, and leaves every record with its
  recomputed digest. Where a record of the array is \<open>undefined\<close> the promise stays
  pending. On no ledger at all does it resolve with an empty error list.
\<close>

theorem validateChain_resolution:
  "(appended SHA256 st \<longrightarrow>
      validateChain SHA256 st = (Resolved (Message ''No errors detected.''), st))
   \<and> (chain st = map Some bs \<and> (\<forall>i<length bs. height (bs ! i) = int i) \<longrightarrow>
        validateChain SHA256 st =
          (Resolved (if chain_errors SHA256 [] bs = [] then Message ''No errors detected.''
                     else ErrorLog (chain_errors SHA256 [] bs)),
           st\<lparr>chain := map Some (map (revalidated SHA256) bs)\<rparr>))
   \<and> (None \<in> set (chain st) \<longrightarrow> fst (validateChain SHA256 st) = Pending)
   \<and> fst (validateChain SHA256 st) \<noteq> Resolved (ErrorLog [])"
  using validateChain_well_linked [OF appended_well_linked, of SHA256 st]
    validateChain_positions [of st bs SHA256] validateChain_undefined [of st SHA256]
    validateChain_never_empty_log [of SHA256 st]
  by blast

lemma chain_tampered2:
  "chain (tamper_at 1 (Set_hash (Some ''00'')) ledger2)
     = map Some [genesis1, tamper (Set_hash (Some ''00'')) (sealed demo_digest 1700000100123 candidate1 ledger1)]"
  by (simp add: tamper_at_def chain_ledger2 chain_ledger1 genesis1_def)

lemma tampered2_errors:
  "chain_errors demo_digest []
     [genesis1, tamper (Set_hash (Some ''00'')) (sealed demo_digest 1700000100123 candidate1 ledger1)]
   = [invalid_block 1 (Some (content_digest demo_digest
        (sealed demo_digest 1700000100123 candidate1 ledger1)))]"
proof -
  let ?d = "content_digest demo_digest (sealed demo_digest 1700000100123 candidate1 ledger1)"
  have "''00'' \<noteq> ?d"
  proof
    assume "''00'' = ?d"
    then have "length ''00'' = length ?d" by (rule arg_cong)
    then show False by (simp add: content_digest_def)
  qed
  moreover have "hash genesis1 = Some (content_digest demo_digest genesis1)"
    by (simp add: genesis1_def sealed_digest)
  moreover have "height genesis1 = 0"
    by (simp add: genesis1_def sealed_fields Blockchain_new_def)
  ultimately show ?thesis
    by (simp add: block_errors_def content_digest_hash_update sealed_fields length_ledger1)
qed

theorem validateChain_resolution_witness:
  "appended demo_digest ledger2
   \<and> validateChain demo_digest ledger2 = (Resolved (Message ''No errors detected.''), ledger2)
   \<and> chain (tamper_at 1 (Set_hash (Some ''00'')) ledger2)
       = map Some [genesis1, tamper (Set_hash (Some ''00''))
                     (sealed demo_digest 1700000100123 candidate1 ledger1)]
   \<and> fst (validateChain demo_digest (tamper_at 1 (Set_hash (Some ''00'')) ledger2))
       = Resolved (ErrorLog [invalid_block 1 (Some (content_digest demo_digest
           (sealed demo_digest 1700000100123 candidate1 ledger1)))])
   \<and> None \<in> set (chain undefined_ledger)
   \<and> fst (validateChain demo_digest undefined_ledger) = Pending"
proof -
  let ?bs = "[genesis1, tamper (Set_hash (Some ''00''))
      (sealed demo_digest 1700000100123 candidate1 ledger1)]"
  have pos: "\<forall>i<length ?bs. height (?bs ! i) = int i"
    by (simp add: genesis1_def sealed_fields Blockchain_new_def length_ledger1 less_Suc_eq)
  have undef: "None \<in> set (chain undefined_ledger)"
    by (simp add: undefined_ledger_def addBlock_eq blockValid_def time_slice_999)
  have a: "validateChain demo_digest ledger2 = (Resolved (Message ''No errors detected.''), ledger2)"
    using validateChain_resolution [of demo_digest ledger2] appended_ledger2 by blast
  have r: "validateChain demo_digest (tamper_at 1 (Set_hash (Some ''00'')) ledger2) =
      (Resolved (if chain_errors demo_digest [] ?bs = [] then Message ''No errors detected.''
                 else ErrorLog (chain_errors demo_digest [] ?bs)),
       (tamper_at 1 (Set_hash (Some ''00'')) ledger2)
         \<lparr>chain := map Some (map (revalidated demo_digest) ?bs)\<rparr>)"
    using validateChain_resolution [of demo_digest "tamper_at 1 (Set_hash (Some ''00'')) ledger2" ?bs]
      chain_tampered2 pos
    by blast
  have b: "fst (validateChain demo_digest (tamper_at 1 (Set_hash (Some ''00'')) ledger2))
       = Resolved (ErrorLog [invalid_block 1 (Some (content_digest demo_digest
           (sealed demo_digest 1700000100123 candidate1 ledger1)))])"
    unfolding r tampered2_errors by simp
  have c: "fst (validateChain demo_digest undefined_ledger) = Pending"
    using validateChain_resolution [of demo_digest undefined_ledger] undef by blast
  show ?thesis
    using appended_ledger2 a b c undef chain_tampered2 by blast
qed

theorem validateChain_empty_list_counterexample:
  "appended demo_digest ledger2
   \<and> fst (validateChain demo_digest ledger2) = Resolved (Message ''No errors detected.'')
   \<and> fst (validateChain demo_digest ledger2) \<noteq> Resolved (ErrorLog [])"
  using validateChain_well_linked [OF appended_well_linked [OF appended_ledger2]] appended_ledger2
  by simp

lemma length_block_text_owner:
  "length (block_text b) = length (block_text (b\<lparr>owner := None\<rparr>)) + length (owner_text (owner b))"
  by (simp add: block_text_parts owner_text_def)

lemma owner_text_lengths:
  "length (owner_text None) = 0"
  "length (owner_text (Some ''1A2b'')) = 15"
  "length (owner_text (Some ''1C3d5'')) = 16"
  by (simp_all add: owner_text_def JSON_quote_def quote_char_def dquote_def backslash_def)

lemma block1_fields:
  "owner block1 = Some ''1A2b''" "height block1 = 1"
  "hash block1 = Some (content_digest demo_digest block1)"
  by (simp_all add: block1_def sealed_fields sealed_digest candidate1_def length_ledger1)

lemma shifted_mod:
  assumes "0 < k" and "k < 256"
  shows "(n + k) mod 256 \<noteq> n mod (256::nat)"
proof
  assume "(n + k) mod 256 = n mod 256"
  then have "256 dvd (n + k) - n"
    using mod_eq_dvd_iff_nat [of n "n + k" 256] by simp
  then have "256 dvd k" by simp
  then have "256 \<le> k" using assms(1) by (rule dvd_imp_le)
  then show False using assms(2) by simp
qed

lemma demo_digest_differs:
  assumes "length s = length t + k" and "0 < k" and "k < 256"
  shows "demo_digest s \<noteq> demo_digest t"
proof
  assume "demo_digest s = demo_digest t"
  then have "length s mod 256 = length t mod 256"
    by (rule demo_digest_eq)
  then have "(length t + k) mod 256 = length t mod 256"
    by (simp only: assms(1))
  then show False
    using shifted_mod [OF assms(2,3), of "length t"] by blast
qed

lemma block1_owner_removed:
  "content_digest demo_digest (tamper (Set_owner None) block1) \<noteq> content_digest demo_digest block1"
proof -
  have "length (block_text block1) = length (block_text (tamper (Set_owner None) block1)) + 15"
    using length_block_text_owner [of block1] by (simp add: block1_fields owner_text_lengths)
  then have "demo_digest (block_text block1)
      \<noteq> demo_digest (block_text (tamper (Set_owner None) block1))"
    by (rule demo_digest_differs) simp_all
  then show ?thesis
    unfolding content_digest_def by (rule not_sym)
qed

lemma block1_owner_replaced:
  "content_digest demo_digest (tamper (Set_owner (Some ''1C3d5'')) block1)
     \<noteq> content_digest demo_digest block1"
proof -
  have "length (block_text block1) = length (block_text (block1\<lparr>owner := None\<rparr>)) + 15"
    using length_block_text_owner [of block1] by (simp add: block1_fields owner_text_lengths)
  moreover have "length (block_text (block1\<lparr>owner := Some ''1C3d5''\<rparr>))
      = length (block_text (block1\<lparr>owner := None\<rparr>)) + 16"
    using length_block_text_owner [of "block1\<lparr>owner := Some ''1C3d5''\<rparr>"]
    by (simp add: owner_text_lengths)
  ultimately have "length (block_text (tamper (Set_owner (Some ''1C3d5'')) block1))
      = length (block_text block1) + 1"
    by simp
  then have "demo_digest (block_text (tamper (Set_owner (Some ''1C3d5'')) block1))
      \<noteq> demo_digest (block_text block1)"
    by (rule demo_digest_differs) simp_all
  then show ?thesis
    unfolding content_digest_def .
qed

theorem tampering_reported_witness:
  "appended demo_digest ledger3 \<and> chain ledger3 ! 1 = Some block1
   \<and> tamper (Set_owner None) block1 \<noteq> block1
   \<and> fst (validate demo_digest (tamper (Set_owner None) block1)) = False
   \<and> fst (validateChain demo_digest (tamper_at 1 (Set_owner None) ledger3)) =
       Resolved (ErrorLog
         [invalid_block 1 (Some (content_digest demo_digest (tamper (Set_owner None) block1))),
          invalid_link 2])"
proof -
  have at1: "chain ledger3 ! 1 = Some block1"
    by (simp only: chain_ledger3 block1_def)
  have changed: "tamper (Set_owner None) block1 \<noteq> block1"
  proof
    assume "tamper (Set_owner None) block1 = block1"
    then have "owner (tamper (Set_owner None) block1) = owner block1" by simp
    then show False by (simp add: block1_fields)
  qed
  have same_height: "height (tamper (Set_owner None) block1) = height block1"
    by simp
  have no_collision:
    "content_digest demo_digest (tamper (Set_owner None) block1) = content_digest demo_digest block1
       \<longrightarrow> block_text (tamper (Set_owner None) block1) = block_text block1"
    using block1_owner_removed by simp
  have "(0::nat) < 1" and "(1::nat) < length (chain ledger3)"
    by (simp_all add: chain_ledger3)
  then show ?thesis
    using tampering_reported [OF appended_ledger3 _ _ at1 changed same_height no_collision]
      appended_ledger3 at1 changed block1_owner_removed block1_fields(3)
    by (simp add: chain_ledger3)
qed

text \<open>
  C5, where the code departs from it: in a ledger of three records the record at position
  \<open>1\<close> has its height set to \<open>0\<close> from outside. \<open>validateChain\<close> then looks, for
  the record at position \<open>2\<close>, for a block of height \<open>1\<close>, finds none, and throws on
  \<open>prevBlock.hash\<close> inside the \<open>async\<close> executor: the promise never settles and
  nothing is reported.
\<close>

theorem tampering_height_counterexample:
  "appended demo_digest ledger3
   \<and> chain ledger3 ! 1 = Some block1 \<and> tamper (Set_height 0) block1 \<noteq> block1
   \<and> Suc 1 < length (chain ledger3)
   \<and> fst (validateChain demo_digest (tamper_at 1 (Set_height 0) ledger3)) = Pending"
proof -
  have "tamper (Set_height 0) block1 \<noteq> block1"
  proof
    assume "tamper (Set_height 0) block1 = block1"
    then have "height (tamper (Set_height 0) block1) = height block1" by simp
    then show False by (simp add: block1_fields)
  qed
  moreover have "fst (validateChain demo_digest (tamper_at 1 (Set_height 0) ledger3)) = Pending"
    using appended_well_linked [OF appended_ledger3]
    by (rule validateChain_height_zeroed) (simp_all add: chain_ledger3)
  moreover have "chain ledger3 ! 1 = Some block1"
    by (simp only: chain_ledger3 block1_def)
  moreover have "Suc 1 < length (chain ledger3)"
    by (simp add: chain_ledger3)
  ultimately show ?thesis
    using appended_ledger3 by blast
qed

text \<open>
  C1, where the code departs from it: the second record of a three-record ledger, sealed
  by \<open>_addBlock\<close>, has its owner replaced from outside. \<open>validate\<close> returns false and
  leaves a stored hash that differs from the one the record had before the call.
\<close>

theorem validate_overwrites_stored_hash:
  "fst (validate demo_digest (tamper (Set_owner (Some ''1C3d5'')) block1)) = False
   \<and> hash (tamper (Set_owner (Some ''1C3d5'')) block1) = hash block1
   \<and> hash (snd (validate demo_digest (tamper (Set_owner (Some ''1C3d5'')) block1)))
       \<noteq> hash (tamper (Set_owner (Some ''1C3d5'')) block1)
   \<and> snd (validate demo_digest (tamper (Set_owner (Some ''1C3d5'')) block1))
       \<noteq> tamper (Set_owner (Some ''1C3d5'')) block1"
proof -
  let ?t = "tamper (Set_owner (Some ''1C3d5'')) block1"
  have stored: "hash ?t = Some (content_digest demo_digest block1)"
    by (simp add: block1_fields(3))
  have after: "hash (snd (validate demo_digest ?t)) = Some (content_digest demo_digest ?t)"
    by (simp only: validate_snd) simp
  have differ: "hash (snd (validate demo_digest ?t)) \<noteq> hash ?t"
    using block1_owner_replaced by (simp only: stored after) simp
  then have "snd (validate demo_digest ?t) \<noteq> ?t"
    by metis
  moreover have "fst (validate demo_digest ?t) = False"
    using block1_owner_replaced by (simp only: validate_fst stored) simp
  moreover have "hash ?t = hash block1"
    by simp
  ultimately show ?thesis
    using differ by blast
qed

section \<open>Decoding what the constructor encoded\<close>
















end
